theory Spec2Isabelle
  imports Main "HOL-Library.AList" "HOL-Library.Char_ord" "HOL-Library.List_Lexorder"
    "HOL-Library.Product_Lexorder"
begin

section \<open>JavaScript values\<close>

text \<open>
  The attributes of a model instance, the defaults of a field and the parameters bound to a
  statement are JavaScript values. The model keeps the kinds of value that
  \<^verbatim>\<open>src/api/src/core/model.ts\<close> tells apart with \<^verbatim>\<open>typeof\<close>,
  \<^verbatim>\<open>instanceof Field\<close>, \<^verbatim>\<open>'fieldName' in value\<close> and truthiness.
  Numbers are the integers (identities, counts, limits); a function is a zero-argument producer
  that reads the clock, the number of producer calls made so far, as
  \<^verbatim>\<open>() => new Date().toISOString()\<close> reads the time. An object keeps its own
  properties in insertion order (property names are identifiers, never array indices).
  A \<^verbatim>\<open>Field\<close> carries the name of its class, its late-bound
  \<^verbatim>\<open>fieldName\<close> and its options.
\<close>

datatype jsval =
    JUndefined
  | JNull
  | JBool bool
  | JNum int
  | JStr string
  | JFun "nat \<Rightarrow> jsval"
  | JObj "(string \<times> jsval) list"
  | JField field
and field =
    Field (className: string) (fieldName: string) (options: field_options)
and field_options =
    FieldOptions
      (primaryKey: "bool option")
      (unique: "bool option")
      (nullable: "bool option")
      (default: jsval)
      (autoIncrement: "bool option")
      (maxLength: "int option")
      (onDelete: "string option")

text \<open>An optional boolean option is truthy when it is present and true.\<close>

fun truthy_opt :: "bool option \<Rightarrow> bool" where
  "truthy_opt (Some b) = b"
| "truthy_opt None = False"

text \<open>JavaScript truthiness: the falsy values are undefined, null, false, 0 and the empty string.\<close>

fun truthy :: "jsval \<Rightarrow> bool" where
  "truthy JUndefined = False"
| "truthy JNull = False"
| "truthy (JBool b) = b"
| "truthy (JNum n) = (n \<noteq> 0)"
| "truthy (JStr s) = (s \<noteq> [])"
| "truthy (JFun f) = True"
| "truthy (JObj ps) = True"
| "truthy (JField f) = True"

subsection \<open>Rendering values in template literals\<close>

fun digits :: "nat \<Rightarrow> string" where
  "digits n = (if n < 10 then [''0123456789'' ! n]
               else digits (n div 10) @ [''0123456789'' ! (n mod 10)])"

declare digits.simps [simp del]

definition show_int :: "int \<Rightarrow> string" where
  "show_int i = (if i < 0 then CHR ''-'' # digits (nat (- i)) else digits (nat i))"

text \<open>
  \<^verbatim>\<open>`${v}`\<close>: the string conversion of a value. A plain object and a field print as
  \<^verbatim>\<open>[object Object]\<close>; the source text of a function is not modelled.
\<close>

fun to_string :: "jsval \<Rightarrow> string" where
  "to_string JUndefined = ''undefined''"
| "to_string JNull = ''null''"
| "to_string (JBool b) = (if b then ''true'' else ''false'')"
| "to_string (JNum n) = show_int n"
| "to_string (JStr s) = s"
| "to_string (JFun f) = ''function''"
| "to_string (JObj ps) = ''[object Object]''"
| "to_string (JField f) = ''[object Object]''"

text \<open>\<^verbatim>\<open>parts.join(sep)\<close>\<close>

fun join :: "string \<Rightarrow> string list \<Rightarrow> string" where
  "join sep [] = []"
| "join sep [x] = x"
| "join sep (x # y # ys) = x @ sep @ join sep (y # ys)"

section \<open>Fields\<close>

text \<open>
  The constructor of \<^verbatim>\<open>Field\<close> stores \<^verbatim>\<open>{ nullable: false, ...options }\<close>:
  the option \<^verbatim>\<open>nullable\<close> is false unless the caller's options carry the key
  (an option that is \<open>None\<close> is a key the caller left out).
\<close>

definition Field_new :: "string \<Rightarrow> field_options \<Rightarrow> field" where
  "Field_new cls opts =
     Field cls [] (case nullable opts of
       None \<Rightarrow> FieldOptions (primaryKey opts) (unique opts) (Some False) (default opts)
                 (autoIncrement opts) (maxLength opts) (onDelete opts)
     | Some b \<Rightarrow> opts)"

text \<open>
  \<^verbatim>\<open>AutoField\<close>: \<^verbatim>\<open>super({ primaryKey: true, autoIncrement: true, ...options })\<close>,
  here for the call without options that \<^verbatim>\<open>getFields\<close> makes.
\<close>

definition AutoField_new :: field where
  "AutoField_new =
     Field_new ''AutoField''
       (FieldOptions (Some True) None None JUndefined (Some True) None None)"

text \<open>
  \<^verbatim>\<open>Field.getConstraints\<close>: the markers are pushed one after the other on the list
  \<^verbatim>\<open>constraints\<close>, which is joined with a blank at the end.
\<close>

definition push :: "'a list \<Rightarrow> 'a \<Rightarrow> 'a list" where
  "push xs x = xs @ [x]"

definition constraints_of :: "field_options \<Rightarrow> string list" where
  "constraints_of opts =
    (let constraints = [];
         constraints = (if truthy_opt (primaryKey opts)
                        then push constraints ''PRIMARY KEY'' else constraints);
         constraints = (if truthy_opt (autoIncrement opts)
                        then push constraints ''AUTOINCREMENT'' else constraints);
         constraints = (if truthy_opt (unique opts)
                        then push constraints ''UNIQUE'' else constraints);
         constraints = (if \<not> truthy_opt (nullable opts) \<and> \<not> truthy_opt (primaryKey opts)
                        then push constraints ''NOT NULL'' else constraints)
     in case default opts of
          JUndefined \<Rightarrow> constraints
        | JFun f \<Rightarrow> constraints
        | JStr s \<Rightarrow> push constraints (''DEFAULT '' @ [CHR 0x27] @ s @ [CHR 0x27])
        | JBool b \<Rightarrow> push constraints (''DEFAULT '' @ (if b then ''1'' else ''0''))
        | v \<Rightarrow> push constraints (''DEFAULT '' @ to_string v))"

definition getConstraints :: "field \<Rightarrow> string" where
  "getConstraints f = join '' '' (constraints_of (options f))"

text \<open>
  The contract of section 4.1 in its own words: the DEFAULT clause of a literal default, and
  the markers in their order.
\<close>

fun spec_default_clause :: "jsval \<Rightarrow> string list" where
  "spec_default_clause JUndefined = []"
| "spec_default_clause (JFun f) = []"
| "spec_default_clause (JStr s) = [''DEFAULT '' @ [CHR 0x27] @ s @ [CHR 0x27]]"
| "spec_default_clause (JBool True) = [''DEFAULT 1'']"
| "spec_default_clause (JBool False) = [''DEFAULT 0'']"
| "spec_default_clause v = [''DEFAULT '' @ to_string v]"

definition spec_marker :: "bool \<Rightarrow> string \<Rightarrow> string list" where
  "spec_marker present m = (if present then [m] else [])"

definition spec_constraints :: "field_options \<Rightarrow> string list" where
  "spec_constraints opts =
     spec_marker (truthy_opt (primaryKey opts)) ''PRIMARY KEY'' @
     spec_marker (truthy_opt (autoIncrement opts)) ''AUTOINCREMENT'' @
     spec_marker (truthy_opt (unique opts)) ''UNIQUE'' @
     spec_marker (\<not> (truthy_opt (nullable opts) \<or> truthy_opt (primaryKey opts))) ''NOT NULL'' @
     spec_default_clause (default opts)"

section \<open>Model classes and instances\<close>

text \<open>
  JavaScript objects and \<^verbatim>\<open>Map\<close>s keep their keys in insertion order: writing an
  existing key replaces the value in place, writing a new key appends it. Both are association
  lists written with \<^const>\<open>AList.update\<close>. Reading a property that is not there
  gives \<^verbatim>\<open>undefined\<close>.
\<close>

definition get_prop :: "(string \<times> jsval) list \<Rightarrow> string \<Rightarrow> jsval" where
  "get_prop obj key = (case map_of obj key of Some v \<Rightarrow> v | None \<Rightarrow> JUndefined)"

text \<open>\<^verbatim>\<open>{ ...a, ...b }\<close> and \<^verbatim>\<open>Object.assign(a, b)\<close>\<close>

definition assign :: "(string \<times> 'v) list \<Rightarrow> (string \<times> 'v) list \<Rightarrow> (string \<times> 'v) list" where
  "assign a b = fold (\<lambda>(k, v) obj. AList.update k v obj) b a"

text \<open>\<^verbatim>\<open>toLowerCase()\<close> on the ASCII letters.\<close>

definition lower_char :: "char \<Rightarrow> char" where
  "lower_char c =
     (case map_of (zip ''ABCDEFGHIJKLMNOPQRSTUVWXYZ'' ''abcdefghijklmnopqrstuvwxyz'') c of
        Some l \<Rightarrow> l | None \<Rightarrow> c)"

definition toLowerCase :: "string \<Rightarrow> string" where
  "toLowerCase s = map lower_char s"

text \<open>
  A subclass of \<^verbatim>\<open>Model\<close>: its name, the table name when the class overrides the static
  \<^verbatim>\<open>getTableName\<close>, and the enumerable properties, in order, of the object that
  \<^verbatim>\<open>new\<close> builds (the class's field initialisers).
\<close>

record model_class =
  name :: string
  tableNameOverride :: "string option"
  props :: "(string \<times> jsval) list"

definition getTableName :: "model_class \<Rightarrow> string" where
  "getTableName m =
     (case tableNameOverride m of Some t \<Rightarrow> t | None \<Rightarrow> toLowerCase (name m) @ ''s'')"

definition set_fieldName :: "field \<Rightarrow> string \<Rightarrow> field" where
  "set_fieldName f key = Field (className f) key (options f)"

text \<open>
  \<^verbatim>\<open>Model.getFields\<close>: the record starts with the \<^verbatim>\<open>AutoField\<close> under
  \<^verbatim>\<open>id\<close>; every property of a new instance that is a \<^verbatim>\<open>Field\<close> is then
  written under its key.
\<close>

definition getFields :: "model_class \<Rightarrow> (string \<times> field) list" where
  "getFields m =
     (let idField = set_fieldName AutoField_new ''id'';
          fields = AList.update ''id'' idField []
      in fold (\<lambda>(key, v) fields.
                 case v of JField f \<Rightarrow> AList.update key (set_fieldName f key) fields
                         | _ \<Rightarrow> fields)
              (props m) fields)"

text \<open>A model instance: its class and its own properties.\<close>

record model_instance =
  cls :: model_class
  attrs :: "(string \<times> jsval) list"

definition new_instance :: "model_class \<Rightarrow> model_instance" where
  "new_instance m = \<lparr> cls = m, attrs = props m \<rparr>"

section \<open>The model registry\<close>

text \<open>
  The options of a registration that \<^verbatim>\<open>registerModel\<close> reads (the display lists
  it merely stores are left out), the metadata of a field and the metadata of a model.
\<close>

record admin_options =
  appName :: "string option"
  displayName :: "string option"
  icon :: "string option"
  permissions :: "string list option"

record field_metadata =
  fm_name :: string
  fm_type :: string
  fm_required :: bool
  fm_maxLength :: "int option"
  fm_unique :: "bool option"
  fm_default :: jsval
  fm_nullable :: "bool option"
  fm_onDelete :: "string option"

record model_metadata =
  md_model :: model_class
  md_tableName :: string
  md_appName :: string
  md_displayName :: string
  md_icon :: string
  md_permissions :: "string list"
  md_fields :: "(string \<times> field_metadata) list"
  md_adminOptions :: admin_options

text \<open>\<^verbatim>\<open>s || d\<close> on an optional string: absent and empty strings are falsy.\<close>

definition or_else :: "string option \<Rightarrow> string \<Rightarrow> string" where
  "or_else s d = (case s of None \<Rightarrow> d | Some x \<Rightarrow> if x = [] then d else x)"

text \<open>
  The metadata \<^verbatim>\<open>registerModel\<close> derives from one field. The key
  \<^verbatim>\<open>choices\<close> is always undefined and is left out; of the two keys added for a
  \<^verbatim>\<open>ForeignKey\<close>, \<^verbatim>\<open>onDelete\<close> is kept.
\<close>

definition field_metadata_of :: "string \<Rightarrow> field \<Rightarrow> field_metadata" where
  "field_metadata_of fname f =
     \<lparr> fm_name = fname,
       fm_type = className f,
       fm_required = (\<not> truthy_opt (nullable (options f))),
       fm_maxLength = maxLength (options f),
       fm_unique = unique (options f),
       fm_default = default (options f),
       fm_nullable = nullable (options f),
       fm_onDelete = (if className f = ''ForeignKey''
                      then Some (or_else (onDelete (options f)) ''CASCADE'') else None) \<rparr>"

definition metadata_of :: "model_class \<Rightarrow> admin_options \<Rightarrow> model_metadata" where
  "metadata_of m opts =
     (let tableName = getTableName m;
          modelName = name m;
          fields = getFields m;
          fieldMetadata = fold (\<lambda>(fname, f) md. AList.update fname (field_metadata_of fname f) md)
                            fields []
      in \<lparr> md_model = m,
           md_tableName = tableName,
           md_appName = or_else (appName opts) ''General'',
           md_displayName = or_else (displayName opts) modelName,
           md_icon = or_else (icon opts) ''database'',
           md_permissions = (case permissions opts of
                               Some ps \<Rightarrow> ps
                             | None \<Rightarrow> [''view'', ''add'', ''change'', ''delete'']),
           md_fields = fieldMetadata,
           md_adminOptions = opts \<rparr>)"

text \<open>
  \<^verbatim>\<open>ModelRegistryClass.registerModel\<close>: \<^verbatim>\<open>this.models.set(modelName, metadata)\<close>.
  The registry starts as the empty map.
\<close>

type_synonym registry = "(string \<times> model_metadata) list"

definition registerModel :: "registry \<Rightarrow> model_class \<Rightarrow> admin_options \<Rightarrow> registry" where
  "registerModel models m opts = AList.update (name m) (metadata_of m opts) models"

definition register_all :: "(model_class \<times> admin_options) list \<Rightarrow> registry" where
  "register_all calls = fold (\<lambda>(m, opts) models. registerModel models m opts) calls []"

section \<open>The database driver\<close>

text \<open>
  The code hands statement texts and parameter lists to the embedded database through
  \<^verbatim>\<open>db.prepare(sql)\<close> and \<^verbatim>\<open>stmt.all/get/run(...params)\<close>. The driver is
  outside the repository; this section is a model of the fragment of it that the statements of
  \<^verbatim>\<open>model.ts\<close> reach. A table has its declared columns (besides the implicit
  \<^verbatim>\<open>id\<close>), its rows in rowid order and the last rowid it gave out. Stored values are
  null, numbers and strings. Uniqueness, NOT NULL and foreign-key constraints, column
  affinity and DDL defaults are not modelled: a column left out of an INSERT reads as null.
\<close>

datatype error = Error string | TypeError string | RangeError string | SqliteError string

type_synonym row = "(string \<times> jsval) list"

record table =
  columns :: "string list"
  rows :: "row list"
  seq :: nat

record database =
  tables :: "(string \<times> table) list"
  executed :: "(string \<times> jsval list) list"

datatype direction = ASC | DESC

fun show_direction :: "direction \<Rightarrow> string" where
  "show_direction ASC = ''ASC''"
| "show_direction DESC = ''DESC''"

text \<open>
  The meaning of a statement text. The driver's parser is modelled by its inverse, the printer
  \<open>render\<close>: a text is accepted with a meaning when the printer maps the meaning to the text.
\<close>

datatype stmt =
    Select string "string list" "(string \<times> direction) option" "int option" "int option"
  | SelectCount string "string list"
  | DeleteFrom string "string list"
  | InsertInto string "string list"
  | UpdateSet string "string list"

definition where_clause :: "string list \<Rightarrow> string" where
  "where_clause cols =
     (if cols = [] then [] else '' WHERE '' @ join '' AND '' (map (\<lambda>c. c @ '' = ?'') cols))"

fun render :: "stmt \<Rightarrow> string" where
  "render (Select t cols ord lim off) =
     ''SELECT * FROM '' @ t @ where_clause cols
     @ (case ord of None \<Rightarrow> [] | Some (f, d) \<Rightarrow> '' ORDER BY '' @ f @ '' '' @ show_direction d)
     @ (case lim of None \<Rightarrow> [] | Some n \<Rightarrow> '' LIMIT '' @ show_int n)
     @ (case off of None \<Rightarrow> [] | Some n \<Rightarrow> '' OFFSET '' @ show_int n)"
| "render (SelectCount t cols) = ''SELECT COUNT(*) as count FROM '' @ t @ where_clause cols"
| "render (DeleteFrom t cols) = ''DELETE FROM '' @ t @ where_clause cols"
| "render (InsertInto t cols) =
     ''INSERT INTO '' @ t @ '' ('' @ join '', '' cols @ '') VALUES (''
     @ join '', '' (map (\<lambda>c. ''?'') cols) @ '')''"
| "render (UpdateSet t cols) =
     ''UPDATE '' @ t @ '' SET '' @ join '', '' (map (\<lambda>c. c @ '' = ?'') cols) @ '' WHERE id = ?''"

text \<open>
  Texts the printer can produce but the database rejects: an empty column list in INSERT, an
  empty SET clause, and OFFSET without LIMIT.
\<close>

fun well_formed :: "stmt \<Rightarrow> bool" where
  "well_formed (Select t cols ord lim off) = (off = None \<or> lim \<noteq> None)"
| "well_formed (InsertInto t cols) = (cols \<noteq> [])"
| "well_formed (UpdateSet t cols) = (cols \<noteq> [])"
| "well_formed s = True"

fun table_of :: "stmt \<Rightarrow> string" where
  "table_of (Select t cols ord lim off) = t"
| "table_of (SelectCount t cols) = t"
| "table_of (DeleteFrom t cols) = t"
| "table_of (InsertInto t cols) = t"
| "table_of (UpdateSet t cols) = t"

fun placeholders :: "stmt \<Rightarrow> nat" where
  "placeholders (Select t cols ord lim off) = length cols"
| "placeholders (SelectCount t cols) = length cols"
| "placeholders (DeleteFrom t cols) = length cols"
| "placeholders (InsertInto t cols) = length cols"
| "placeholders (UpdateSet t cols) = length cols + 1"

text \<open>
  Columns in a WHERE clause or ORDER BY are \<^verbatim>\<open>id\<close> or declared columns; columns
  written by INSERT and UPDATE are declared columns (the code never writes \<^verbatim>\<open>id\<close>).
\<close>

definition readable :: "table \<Rightarrow> string \<Rightarrow> bool" where
  "readable t c = (c = ''id'' \<or> c \<in> set (columns t))"

fun columns_known :: "table \<Rightarrow> stmt \<Rightarrow> bool" where
  "columns_known t (Select tn cols ord lim off) =
     (list_all (readable t) cols \<and> (case ord of None \<Rightarrow> True | Some (f, d) \<Rightarrow> readable t f))"
| "columns_known t (SelectCount tn cols) = list_all (readable t) cols"
| "columns_known t (DeleteFrom tn cols) = list_all (readable t) cols"
| "columns_known t (InsertInto tn cols) = list_all (\<lambda>c. c \<in> set (columns t)) cols"
| "columns_known t (UpdateSet tn cols) = list_all (\<lambda>c. c \<in> set (columns t)) cols"

text \<open>
  The driver binds numbers, strings and null; \<^verbatim>\<open>undefined\<close> is bound as null;
  a boolean, an object or a function is a \<^verbatim>\<open>TypeError\<close>.
\<close>

fun bindable :: "jsval \<Rightarrow> bool" where
  "bindable JUndefined = True"
| "bindable JNull = True"
| "bindable (JNum n) = True"
| "bindable (JStr s) = True"
| "bindable v = False"

fun bind :: "jsval \<Rightarrow> jsval" where
  "bind JUndefined = JNull"
| "bind v = v"

text \<open>\<^verbatim>\<open>column = ?\<close>: null equals nothing; numbers and strings equal their like.\<close>

fun sql_eq :: "jsval \<Rightarrow> jsval \<Rightarrow> bool" where
  "sql_eq (JNum a) (JNum b) = (a = b)"
| "sql_eq (JStr a) (JStr b) = (a = b)"
| "sql_eq a b = False"

definition column_value :: "row \<Rightarrow> string \<Rightarrow> jsval" where
  "column_value r c = (case map_of r c of Some v \<Rightarrow> v | None \<Rightarrow> JNull)"

definition matches :: "string list \<Rightarrow> jsval list \<Rightarrow> row \<Rightarrow> bool" where
  "matches cols params r = list_all (\<lambda>(c, p). sql_eq (column_value r c) p) (zip cols params)"

text \<open>\<^verbatim>\<open>SELECT *\<close> gives every row the same columns, \<^verbatim>\<open>id\<close> first.\<close>

definition project :: "table \<Rightarrow> row \<Rightarrow> row" where
  "project t r = map (\<lambda>c. (c, column_value r c)) (''id'' # columns t)"

text \<open>ORDER BY: nulls first, then numbers, then strings; a stable sort.\<close>

fun sort_rank :: "jsval \<Rightarrow> nat \<times> int \<times> string" where
  "sort_rank (JNum n) = (1, n, [])"
| "sort_rank (JStr s) = (2, 0, s)"
| "sort_rank v = (0, 0, [])"

definition ordered :: "(string \<times> direction) option \<Rightarrow> row list \<Rightarrow> row list" where
  "ordered ord rs =
     (case ord of
        None \<Rightarrow> rs
      | Some (f, ASC) \<Rightarrow> sort_key (\<lambda>r. sort_rank (column_value r f)) rs
      | Some (f, DESC) \<Rightarrow> rev (sort_key (\<lambda>r. sort_rank (column_value r f)) (rev rs)))"

text \<open>LIMIT and OFFSET: a negative limit is no limit, a negative offset is no offset.\<close>

definition window :: "int option \<Rightarrow> int option \<Rightarrow> row list \<Rightarrow> row list" where
  "window lim off rs =
     (let rs = (case off of None \<Rightarrow> rs | Some m \<Rightarrow> drop (nat m) rs)
      in case lim of None \<Rightarrow> rs | Some n \<Rightarrow> if n < 0 then rs else take (nat n) rs)"

text \<open>The result of a statement: the rows read, or the change count and the last rowid.\<close>

datatype outcome = Rows "row list" | Changes nat int

fun rows_of :: "outcome \<Rightarrow> row list" where
  "rows_of (Rows rs) = rs"
| "rows_of (Changes n i) = []"

fun changes_of :: "outcome \<Rightarrow> nat" where
  "changes_of (Rows rs) = 0"
| "changes_of (Changes n i) = n"

fun lastInsertRowid :: "outcome \<Rightarrow> int" where
  "lastInsertRowid (Rows rs) = 0"
| "lastInsertRowid (Changes n i) = i"

fun execute :: "table \<Rightarrow> stmt \<Rightarrow> jsval list \<Rightarrow> table \<times> outcome" where
  "execute t (Select tn cols ord lim off) ps =
     (t, Rows (map (project t) (window lim off (ordered ord (filter (matches cols ps) (rows t))))))"
| "execute t (SelectCount tn cols) ps =
     (t, Rows [[(''count'', JNum (int (length (filter (matches cols ps) (rows t)))))]])"
| "execute t (DeleteFrom tn cols) ps =
     (t\<lparr>rows := filter (\<lambda>r. \<not> matches cols ps r) (rows t)\<rparr>,
      Changes (length (filter (matches cols ps) (rows t))) (int (seq t)))"
| "execute t (InsertInto tn cols) ps =
     (let rowid = Suc (seq t)
      in (t\<lparr>rows := rows t @ [(''id'', JNum (int rowid)) # zip cols (map bind ps)], seq := rowid\<rparr>,
          Changes 1 (int rowid)))"
| "execute t (UpdateSet tn cols) ps =
     (t\<lparr>rows := map (\<lambda>r. if sql_eq (column_value r ''id'') (last ps)
                           then assign r (zip cols (map bind (butlast ps))) else r) (rows t)\<rparr>,
      Changes (length (filter (\<lambda>r. sql_eq (column_value r ''id'') (last ps)) (rows t)))
              (int (seq t)))"

text \<open>
  \<^verbatim>\<open>db.prepare(sql)\<close> followed by \<^verbatim>\<open>all\<close>, \<^verbatim>\<open>get\<close> or
  \<^verbatim>\<open>run\<close> with the parameters. A statement that is executed is appended to the
  record of executed statements; a statement that fails is not.
\<close>

definition run_statement ::
  "database \<Rightarrow> string \<Rightarrow> stmt \<Rightarrow> jsval list \<Rightarrow> error + (outcome \<times> database)" where
  "run_statement db sql meaning params =
     (if render meaning \<noteq> sql \<or> \<not> well_formed meaning then Inl (SqliteError ''syntax error'')
      else case map_of (tables db) (table_of meaning) of
        None \<Rightarrow> Inl (SqliteError ''no such table'')
      | Some t \<Rightarrow>
          if \<not> columns_known t meaning then Inl (SqliteError ''no such column'')
          else if length params \<noteq> placeholders meaning
            then Inl (RangeError ''Wrong number of parameter values'')
          else if \<not> list_all bindable params
            then Inl (TypeError ''SQLite3 can only bind numbers, strings, bigints, buffers, and null'')
          else (case execute t meaning params of
                  (t', out) \<Rightarrow>
                    Inr (out, db\<lparr>tables := AList.update (table_of meaning) t' (tables db),
                                 executed := executed db @ [(sql, params)]\<rparr>)))"

section \<open>QuerySet\<close>

record query_options =
  limit :: "int option"
  offset :: "int option"
  orderBy :: "string option"
  orderDirection :: "direction option"

record queryset =
  qs_model :: model_class
  filters :: "(string \<times> jsval) list"
  qs_options :: query_options

definition QuerySet_new :: "model_class \<Rightarrow> queryset" where
  "QuerySet_new m =
     \<lparr> qs_model = m, filters = [],
       qs_options = \<lparr> limit = None, offset = None, orderBy = None, orderDirection = None \<rparr> \<rparr>"

definition QuerySet_filter :: "queryset \<Rightarrow> (string \<times> jsval) list \<Rightarrow> queryset" where
  "QuerySet_filter q fs = q\<lparr>filters := assign (filters q) fs\<rparr>"

text \<open>The direction parameter defaults to \<^verbatim>\<open>'ASC'\<close> when the caller leaves it out.\<close>

definition QuerySet_orderBy :: "queryset \<Rightarrow> string \<Rightarrow> direction option \<Rightarrow> queryset" where
  "QuerySet_orderBy q f d =
     q\<lparr>qs_options := (qs_options q)\<lparr>orderBy := Some f,
          orderDirection := Some (case d of None \<Rightarrow> ASC | Some x \<Rightarrow> x)\<rparr>\<rparr>"

definition QuerySet_limit :: "queryset \<Rightarrow> int \<Rightarrow> queryset" where
  "QuerySet_limit q n = q\<lparr>qs_options := (qs_options q)\<lparr>limit := Some n\<rparr>\<rparr>"

definition QuerySet_offset :: "queryset \<Rightarrow> int \<Rightarrow> queryset" where
  "QuerySet_offset q n = q\<lparr>qs_options := (qs_options q)\<lparr>offset := Some n\<rparr>\<rparr>"

text \<open>Truthiness of an optional number and of an optional string.\<close>

definition truthy_num :: "int option \<Rightarrow> bool" where
  "truthy_num n = (case n of None \<Rightarrow> False | Some i \<Rightarrow> i \<noteq> 0)"

definition truthy_str :: "string option \<Rightarrow> bool" where
  "truthy_str s = (case s of None \<Rightarrow> False | Some x \<Rightarrow> x \<noteq> [])"

text \<open>
  The WHERE clause shared by \<^verbatim>\<open>all\<close>, \<^verbatim>\<open>count\<close> and \<^verbatim>\<open>delete\<close>:
  \<^verbatim>\<open>Object.keys(this.filters).map(key => { params.push(this.filters[key]); return `${key} = ?` })\<close>.
\<close>

definition filter_conditions :: "queryset \<Rightarrow> string list" where
  "filter_conditions q = map (\<lambda>key. key @ '' = ?'') (map fst (filters q))"

definition filter_params :: "queryset \<Rightarrow> jsval list" where
  "filter_params q =
     (if length (map fst (filters q)) > 0
      then map (\<lambda>key. get_prop (filters q) key) (map fst (filters q)) else [])"

definition with_where :: "queryset \<Rightarrow> string \<Rightarrow> string" where
  "with_where q query =
     (if length (map fst (filters q)) > 0
      then query @ '' WHERE '' @ join '' AND '' (filter_conditions q) else query)"

definition all_query :: "queryset \<Rightarrow> string" where
  "all_query q =
     (let tableName = getTableName (qs_model q);
          query = ''SELECT * FROM '' @ tableName;
          query = with_where q query;
          query = (case orderBy (qs_options q) of
                     None \<Rightarrow> query
                   | Some f \<Rightarrow>
                       if f \<noteq> [] then query @ '' ORDER BY '' @ f @ '' ''
                         @ (case orderDirection (qs_options q) of
                              None \<Rightarrow> ''ASC'' | Some d \<Rightarrow> show_direction d)
                       else query);
          query = (case limit (qs_options q) of
                     None \<Rightarrow> query
                   | Some n \<Rightarrow> if n \<noteq> 0 then query @ '' LIMIT '' @ show_int n else query);
          query = (case offset (qs_options q) of
                     None \<Rightarrow> query
                   | Some n \<Rightarrow> if n \<noteq> 0 then query @ '' OFFSET '' @ show_int n else query)
      in query)"

text \<open>The meaning of the text that \<^verbatim>\<open>all\<close> builds.\<close>

definition all_meaning :: "queryset \<Rightarrow> stmt" where
  "all_meaning q =
     Select (getTableName (qs_model q)) (map fst (filters q))
       (case orderBy (qs_options q) of
          None \<Rightarrow> None
        | Some f \<Rightarrow> if f \<noteq> []
                    then Some (f, case orderDirection (qs_options q) of None \<Rightarrow> ASC | Some d \<Rightarrow> d)
                    else None)
       (case limit (qs_options q) of None \<Rightarrow> None | Some n \<Rightarrow> if n \<noteq> 0 then Some n else None)
       (case offset (qs_options q) of None \<Rightarrow> None | Some n \<Rightarrow> if n \<noteq> 0 then Some n else None)"

text \<open>
  Hydration: \<^verbatim>\<open>Object.assign(new Model(), row)\<close>.
\<close>

definition hydrate :: "model_class \<Rightarrow> row \<Rightarrow> model_instance" where
  "hydrate m r = (new_instance m)\<lparr>attrs := assign (attrs (new_instance m)) r\<rparr>"

definition QuerySet_all ::
  "database \<Rightarrow> queryset \<Rightarrow> error + (model_instance list \<times> database)" where
  "QuerySet_all db q =
     (case run_statement db (all_query q) (all_meaning q) (filter_params q) of
        Inl e \<Rightarrow> Inl e
      | Inr (results, db') \<Rightarrow> Inr (map (hydrate (qs_model q)) (rows_of results), db'))"

text \<open>
  \<^verbatim>\<open>first\<close> is \<^verbatim>\<open>this.limit(1).all()\<close>: it leaves the limit 1 stored in the
  QuerySet it was called on.
\<close>

definition QuerySet_first ::
  "database \<Rightarrow> queryset \<Rightarrow> error + (model_instance option \<times> database)" where
  "QuerySet_first db q =
     (case QuerySet_all db (QuerySet_limit q 1) of
        Inl e \<Rightarrow> Inl e
      | Inr (results, db') \<Rightarrow>
          Inr (case results of r # rs \<Rightarrow> Some r | [] \<Rightarrow> None, db'))"

definition count_query :: "queryset \<Rightarrow> string" where
  "count_query q =
     (let tableName = getTableName (qs_model q);
          query = ''SELECT COUNT(*) as count FROM '' @ tableName
      in with_where q query)"

definition QuerySet_count :: "database \<Rightarrow> queryset \<Rightarrow> error + (jsval \<times> database)" where
  "QuerySet_count db q =
     (case run_statement db (count_query q)
             (SelectCount (getTableName (qs_model q)) (map fst (filters q))) (filter_params q) of
        Inl e \<Rightarrow> Inl e
      | Inr (result, db') \<Rightarrow>
          Inr (case rows_of result of r # rs \<Rightarrow> get_prop r ''count'' | [] \<Rightarrow> JUndefined, db'))"

definition delete_query :: "queryset \<Rightarrow> string" where
  "delete_query q =
     (let tableName = getTableName (qs_model q);
          query = ''DELETE FROM '' @ tableName
      in with_where q query)"

definition QuerySet_delete :: "database \<Rightarrow> queryset \<Rightarrow> error + (nat \<times> database)" where
  "QuerySet_delete db q =
     (case run_statement db (delete_query q)
             (DeleteFrom (getTableName (qs_model q)) (map fst (filters q))) (filter_params q) of
        Inl e \<Rightarrow> Inl e
      | Inr (result, db') \<Rightarrow> Inr (changes_of result, db'))"

text \<open>The manager \<^verbatim>\<open>Model.objects\<close>.\<close>

definition objects_all :: "model_class \<Rightarrow> queryset" where
  "objects_all m = QuerySet_new m"

definition objects_filter :: "model_class \<Rightarrow> (string \<times> jsval) list \<Rightarrow> queryset" where
  "objects_filter m fs = QuerySet_filter (QuerySet_new m) fs"

definition objects_get ::
  "database \<Rightarrow> model_class \<Rightarrow> (string \<times> jsval) list \<Rightarrow> error + (model_instance option \<times> database)" where
  "objects_get db m fs = QuerySet_first db (QuerySet_filter (QuerySet_new m) fs)"

section \<open>Model: save and delete\<close>

text \<open>
  \<^verbatim>\<open>value !== undefined && value !== null && typeof value === 'object' && 'fieldName' in value\<close>:
  the test by which \<^verbatim>\<open>save\<close> recognises an attribute that still holds its field
  descriptor.
\<close>

fun is_descriptor :: "jsval \<Rightarrow> bool" where
  "is_descriptor (JField f) = True"
| "is_descriptor (JObj ps) = (''fieldName'' \<in> set (map fst ps))"
| "is_descriptor v = False"

fun is_undefined :: "jsval \<Rightarrow> bool" where
  "is_undefined JUndefined = True"
| "is_undefined v = False"

fun is_nullish :: "jsval \<Rightarrow> bool" where
  "is_nullish JUndefined = True"
| "is_nullish JNull = True"
| "is_nullish v = False"

text \<open>
  \<^verbatim>\<open>typeof d === 'function' ? d() : d\<close>. A call of a producer reads the clock and
  advances it.
\<close>

fun apply_default :: "jsval \<Rightarrow> nat \<Rightarrow> jsval \<times> nat" where
  "apply_default (JFun f) clock = (f clock, Suc clock)"
| "apply_default d clock = (d, clock)"

fun coerce_boolean :: "jsval \<Rightarrow> jsval" where
  "coerce_boolean (JBool b) = JNum (if b then 1 else 0)"
| "coerce_boolean v = v"

text \<open>
  The body of the loop of \<^verbatim>\<open>save\<close> for one field: the value written to
  the record \<^verbatim>\<open>data\<close>, or \<open>None\<close> where the loop reaches \<^verbatim>\<open>continue\<close>,
  and the clock after the calls made.
\<close>

definition resolve_value :: "field \<Rightarrow> jsval \<Rightarrow> nat \<Rightarrow> jsval option \<times> nat" where
  "resolve_value field v clock =
     (let d = default (options field)
      in if is_descriptor v \<and> is_undefined d then (None, clock)
         else
           (case (if is_descriptor v then apply_default d clock else (v, clock)) of
              (v1, clock1) \<Rightarrow>
                (case (if is_nullish v1 \<and> \<not> is_undefined d then apply_default d clock1
                       else (v1, clock1)) of
                   (v2, clock2) \<Rightarrow> (Some (coerce_boolean v2), clock2))))"

fun collect_data ::
  "(string \<times> field) list \<Rightarrow> (string \<times> jsval) list \<Rightarrow> (string \<times> jsval) list \<Rightarrow> nat
     \<Rightarrow> (string \<times> jsval) list \<times> nat" where
  "collect_data [] this data clock = (data, clock)"
| "collect_data ((fname, field) # rest) this data clock =
     (if fname \<noteq> ''id'' then
        (case resolve_value field (get_prop this fname) clock of
           (None, clock') \<Rightarrow> collect_data rest this data clock'
         | (Some v, clock') \<Rightarrow> collect_data rest this (AList.update fname v data) clock')
      else collect_data rest this data clock)"

definition update_sql :: "string \<Rightarrow> (string \<times> jsval) list \<Rightarrow> string" where
  "update_sql tableName data =
     (let setClause = join '', '' (map (\<lambda>key. key @ '' = ?'') (map fst data))
      in ''UPDATE '' @ tableName @ '' SET '' @ setClause @ '' WHERE id = ?'')"

definition insert_sql :: "string \<Rightarrow> (string \<times> jsval) list \<Rightarrow> string" where
  "insert_sql tableName data =
     (let keys = map fst data;
          marks = join '', '' (map (\<lambda>k. ''?'') keys)
      in ''INSERT INTO '' @ tableName @ '' ('' @ join '', '' keys @ '') VALUES (''
         @ marks @ '')'')"

text \<open>
  \<^verbatim>\<open>Model.save\<close>. It returns the instance (whose \<^verbatim>\<open>id\<close> the insert path
  sets), the database and the clock.
\<close>

definition Model_save ::
  "database \<Rightarrow> nat \<Rightarrow> model_instance \<Rightarrow> error + (model_instance \<times> database \<times> nat)" where
  "Model_save db clock this =
     (let tableName = getTableName (cls this);
          fields = getFields (cls this)
      in case collect_data fields (attrs this) [] clock of
        (data, clock') \<Rightarrow>
          if truthy (get_prop (attrs this) ''id'') then
            (let values = map snd data @ [get_prop (attrs this) ''id''];
                 updateSQL = update_sql tableName data
             in case run_statement db updateSQL (UpdateSet tableName (map fst data)) values of
                  Inl e \<Rightarrow> Inl e
                | Inr (result, db') \<Rightarrow> Inr (this, db', clock'))
          else
            (let values = map snd data;
                 insertSQL = insert_sql tableName data
             in case run_statement db insertSQL (InsertInto tableName (map fst data)) values of
                  Inl e \<Rightarrow> Inl e
                | Inr (result, db') \<Rightarrow>
                    Inr (this\<lparr>attrs := AList.update ''id'' (JNum (lastInsertRowid result))
                                        (attrs this)\<rparr>, db', clock')))"

definition delete_sql :: "string \<Rightarrow> string" where
  "delete_sql tableName = ''DELETE FROM '' @ tableName @ '' WHERE id = ?''"

text \<open>\<^verbatim>\<open>Model.delete\<close>. It does not change the instance.\<close>

definition Model_delete :: "database \<Rightarrow> model_instance \<Rightarrow> error + database" where
  "Model_delete db this =
     (if \<not> truthy (get_prop (attrs this) ''id'') then Inl (Error ''Cannot delete unsaved object'')
      else
        (let tableName = getTableName (cls this);
             deleteSQL = delete_sql tableName
         in case run_statement db deleteSQL (DeleteFrom tableName [''id''])
                   [get_prop (attrs this) ''id''] of
              Inl e \<Rightarrow> Inl e
            | Inr (result, db') \<Rightarrow> Inr db'))"

text \<open>\<^verbatim>\<open>objects.create(data)\<close>\<close>

definition objects_create ::
  "database \<Rightarrow> nat \<Rightarrow> model_class \<Rightarrow> (string \<times> jsval) list
     \<Rightarrow> error + (model_instance \<times> database \<times> nat)" where
  "objects_create db clock m data =
     Model_save db clock ((new_instance m)\<lparr>attrs := assign (attrs (new_instance m)) data\<rparr>)"

section \<open>The field-value resolution of section 4.4, in the spec's words\<close>

text \<open>
  Step 1: a value that still is a field descriptor falls back to the field's default when
  there is one (a callable default is called), and otherwise the column is skipped
  (\<open>None\<close>). Step 2: a null or undefined value takes the default when there is one.
  Step 3: a boolean becomes 1 or 0.
\<close>

definition has_default :: "field \<Rightarrow> bool" where
  "has_default f = (\<not> is_undefined (default (options f)))"

definition spec_step1 :: "field \<Rightarrow> jsval \<times> nat \<Rightarrow> (jsval \<times> nat) option" where
  "spec_step1 f = (\<lambda>(v, clock).
     if is_descriptor v
     then (if has_default f then Some (apply_default (default (options f)) clock) else None)
     else Some (v, clock))"

definition spec_step2 :: "field \<Rightarrow> jsval \<times> nat \<Rightarrow> jsval \<times> nat" where
  "spec_step2 f = (\<lambda>(v, clock).
     if is_nullish v \<and> has_default f then apply_default (default (options f)) clock
     else (v, clock))"

definition spec_step3 :: "jsval \<times> nat \<Rightarrow> jsval \<times> nat" where
  "spec_step3 = (\<lambda>(v, clock). (case v of JBool True \<Rightarrow> JNum 1 | JBool False \<Rightarrow> JNum 0 | _ \<Rightarrow> v, clock))"

definition spec_resolve :: "field \<Rightarrow> jsval \<Rightarrow> nat \<Rightarrow> (jsval \<times> nat) option" where
  "spec_resolve f v clock = map_option (spec_step3 \<circ> spec_step2 f) (spec_step1 f (v, clock))"

text \<open>
  The columns and values that \<^verbatim>\<open>save\<close> persists: the declared non-id fields in
  their order, each resolved at the clock the preceding fields left, the skipped ones left out.
\<close>

fun spec_persisted ::
  "(string \<times> field) list \<Rightarrow> (string \<times> jsval) list \<Rightarrow> nat \<Rightarrow> (string \<times> jsval) list \<times> nat" where
  "spec_persisted [] this clock = ([], clock)"
| "spec_persisted ((fname, f) # rest) this clock =
     (if fname = ''id'' then spec_persisted rest this clock
      else case spec_resolve f (get_prop this fname) clock of
             None \<Rightarrow> spec_persisted rest this clock
           | Some (v, clock') \<Rightarrow>
               (case spec_persisted rest this clock' of
                  (data, clock'') \<Rightarrow> ((fname, v) # data, clock'')))"

section \<open>Well-formed tables\<close>

text \<open>
  What the database guarantees of a table with an \<^verbatim>\<open>INTEGER PRIMARY KEY AUTOINCREMENT\<close>
  column \<^verbatim>\<open>id\<close>: every row has a positive rowid no larger than the last one given
  out, no two rows share a rowid, and stored values are null, numbers or strings.
\<close>

fun storable :: "jsval \<Rightarrow> bool" where
  "storable JNull = True"
| "storable (JNum n) = True"
| "storable (JStr s) = True"
| "storable v = False"

definition rowid :: "row \<Rightarrow> int option" where
  "rowid r = (case map_of r ''id'' of Some (JNum n) \<Rightarrow> Some n | _ \<Rightarrow> None)"

definition wf_table :: "table \<Rightarrow> bool" where
  "wf_table t =
     (list_all (\<lambda>r. case rowid r of Some n \<Rightarrow> 0 < n \<and> n \<le> int (seq t) | None \<Rightarrow> False) (rows t)
      \<and> distinct (map rowid (rows t))
      \<and> list_all (\<lambda>r. list_all (\<lambda>(c, v). storable v) r) (rows t))"

text \<open>The names of the properties of a new instance that hold a \<^verbatim>\<open>Field\<close>.\<close>

definition declared_fields :: "model_class \<Rightarrow> string list" where
  "declared_fields m =
     map fst (filter (\<lambda>(k, v). case v of JField f \<Rightarrow> True | _ \<Rightarrow> False) (props m))"

section \<open>The auth models and the permission service\<close>

text \<open>
  The models of \<^verbatim>\<open>apps/auth/models.ts\<close>. The producer
  \<^verbatim>\<open>() => new Date().toISOString()\<close> returns the reading of the clock as a string.
\<close>

definition bare_options :: field_options where
  "bare_options = FieldOptions None None None JUndefined None None None"

definition toISOString :: "nat \<Rightarrow> jsval" where
  "toISOString clock = JStr (show_int (int clock))"

definition User :: model_class where
  "User = \<lparr> name = ''User'', tableNameOverride = Some ''users'',
     props =
       [(''username'', JField (Field_new ''CharField''
           (FieldOptions None (Some True) None JUndefined None (Some 150) None))),
        (''email'', JField (Field_new ''EmailField''
           (FieldOptions None (Some True) None JUndefined None (Some 254) None))),
        (''password'', JField (Field_new ''TextField'' bare_options)),
        (''firstName'', JField (Field_new ''CharField''
           (FieldOptions None None (Some True) JUndefined None (Some 150) None))),
        (''lastName'', JField (Field_new ''CharField''
           (FieldOptions None None (Some True) JUndefined None (Some 150) None))),
        (''isActive'', JField (Field_new ''BooleanField''
           (FieldOptions None None None (JBool False) None None None))),
        (''isStaff'', JField (Field_new ''BooleanField''
           (FieldOptions None None None (JBool False) None None None))),
        (''isSuperuser'', JField (Field_new ''BooleanField''
           (FieldOptions None None None (JBool False) None None None))),
        (''dateJoined'', JField (Field_new ''DateTimeField''
           (FieldOptions None None None (JFun toISOString) None None None))),
        (''lastLogin'', JField (Field_new ''DateTimeField''
           (FieldOptions None None (Some True) JUndefined None None None)))] \<rparr>"

definition Permission :: model_class where
  "Permission = \<lparr> name = ''Permission'', tableNameOverride = Some ''permissions'',
     props =
       [(''name'', JField (Field_new ''CharField''
           (FieldOptions None None None JUndefined None (Some 255) None))),
        (''codename'', JField (Field_new ''CharField''
           (FieldOptions None (Some True) None JUndefined None (Some 100) None))),
        (''modelName'', JField (Field_new ''CharField''
           (FieldOptions None None None JUndefined None (Some 100) None)))] \<rparr>"

definition UserPermission :: model_class where
  "UserPermission = \<lparr> name = ''UserPermission'', tableNameOverride = Some ''user_permissions'',
     props = [(''userId'', JField (Field_new ''IntegerField'' bare_options)),
              (''permissionId'', JField (Field_new ''IntegerField'' bare_options))] \<rparr>"

definition GroupPermission :: model_class where
  "GroupPermission = \<lparr> name = ''GroupPermission'', tableNameOverride = Some ''group_permissions'',
     props = [(''groupId'', JField (Field_new ''IntegerField'' bare_options)),
              (''permissionId'', JField (Field_new ''IntegerField'' bare_options))] \<rparr>"

definition UserGroup :: model_class where
  "UserGroup = \<lparr> name = ''UserGroup'', tableNameOverride = Some ''user_groups'',
     props = [(''userId'', JField (Field_new ''IntegerField'' bare_options)),
              (''groupId'', JField (Field_new ''IntegerField'' bare_options))] \<rparr>"

text \<open>\<^verbatim>\<open>v === s\<close> for a string \<open>s\<close>.\<close>

fun strict_eq_str :: "jsval \<Rightarrow> string \<Rightarrow> bool" where
  "strict_eq_str (JStr x) s = (x = s)"
| "strict_eq_str v s = False"

text \<open>
  The loop over the user's or a group's permission rows:
  \<^verbatim>\<open>for (const perm of perms) { const permission = Permission.objects.get({ id: perm.permissionId });
  if (permission && permission.codename === codename) return true; }\<close>.
  The result \<open>True\<close> is the early return.
\<close>

fun permission_loop ::
  "database \<Rightarrow> string \<Rightarrow> model_instance list \<Rightarrow> error + (bool \<times> database)" where
  "permission_loop db codename [] = Inr (False, db)"
| "permission_loop db codename (perm # perms) =
     (case objects_get db Permission [(''id'', get_prop (attrs perm) ''permissionId'')] of
        Inl e \<Rightarrow> Inl e
      | Inr (permission, db') \<Rightarrow>
          if (case permission of
                None \<Rightarrow> False
              | Some p \<Rightarrow> strict_eq_str (get_prop (attrs p) ''codename'') codename)
          then Inr (True, db')
          else permission_loop db' codename perms)"

fun group_loop ::
  "database \<Rightarrow> string \<Rightarrow> model_instance list \<Rightarrow> error + (bool \<times> database)" where
  "group_loop db codename [] = Inr (False, db)"
| "group_loop db codename (userGroup # userGroups) =
     (case QuerySet_all db
             (objects_filter GroupPermission [(''groupId'', get_prop (attrs userGroup) ''groupId'')]) of
        Inl e \<Rightarrow> Inl e
      | Inr (groupPerms, db') \<Rightarrow>
          (case permission_loop db' codename groupPerms of
             Inl e \<Rightarrow> Inl e
           | Inr (found, db'') \<Rightarrow>
               if found then Inr (True, db'') else group_loop db'' codename userGroups))"

definition hasPermission :: "database \<Rightarrow> int \<Rightarrow> string \<Rightarrow> error + (bool \<times> database)" where
  "hasPermission db userId codename =
     (case objects_get db User [(''id'', JNum userId)] of
        Inl e \<Rightarrow> Inl e
      | Inr (None, db1) \<Rightarrow> Inr (False, db1)
      | Inr (Some user, db1) \<Rightarrow>
          if truthy (get_prop (attrs user) ''isSuperuser'') then Inr (True, db1)
          else
            (case QuerySet_all db1 (objects_filter UserPermission [(''userId'', JNum userId)]) of
               Inl e \<Rightarrow> Inl e
             | Inr (userPerms, db2) \<Rightarrow>
                 (case permission_loop db2 codename userPerms of
                    Inl e \<Rightarrow> Inl e
                  | Inr (found, db3) \<Rightarrow>
                      if found then Inr (True, db3)
                      else
                        (case QuerySet_all db3
                                (objects_filter UserGroup [(''userId'', JNum userId)]) of
                           Inl e \<Rightarrow> Inl e
                         | Inr (userGroups, db4) \<Rightarrow> group_loop db4 codename userGroups))))"

definition hasModelPermission ::
  "database \<Rightarrow> int \<Rightarrow> string \<Rightarrow> string \<Rightarrow> error + (bool \<times> database)" where
  "hasModelPermission db userId action modelName =
     (let codename = action @ ''_'' @ toLowerCase modelName
      in hasPermission db userId codename)"

text \<open>
  What a grant is, in the words of the claim: a row of \<^verbatim>\<open>user_permissions\<close> for the
  user that links to a permission with the codename, or a row of \<^verbatim>\<open>user_groups\<close> for the
  user and a row of \<^verbatim>\<open>group_permissions\<close> for that group that links to one.
\<close>

definition table_rows :: "database \<Rightarrow> string \<Rightarrow> row list" where
  "table_rows db tn = (case map_of (tables db) tn of Some t \<Rightarrow> rows t | None \<Rightarrow> [])"

definition links_codename :: "database \<Rightarrow> jsval \<Rightarrow> string \<Rightarrow> bool" where
  "links_codename db pid codename =
     (\<exists>p \<in> set (table_rows db ''permissions'').
        sql_eq (column_value p ''id'') pid \<and> column_value p ''codename'' = JStr codename)"

definition granted_directly :: "database \<Rightarrow> int \<Rightarrow> string \<Rightarrow> bool" where
  "granted_directly db userId codename =
     (\<exists>up \<in> set (table_rows db ''user_permissions'').
        sql_eq (column_value up ''userId'') (JNum userId)
        \<and> links_codename db (column_value up ''permissionId'') codename)"

definition granted_via_group :: "database \<Rightarrow> int \<Rightarrow> string \<Rightarrow> bool" where
  "granted_via_group db userId codename =
     (\<exists>ug \<in> set (table_rows db ''user_groups'').
        sql_eq (column_value ug ''userId'') (JNum userId)
        \<and> (\<exists>gp \<in> set (table_rows db ''group_permissions'').
              sql_eq (column_value gp ''groupId'') (column_value ug ''groupId'')
              \<and> links_codename db (column_value gp ''permissionId'') codename))"

text \<open>
  The schema that \<^verbatim>\<open>createTable\<close> gives the five tables: each exists, is well formed
  and has the columns of its model's declared fields.
\<close>

definition has_table :: "database \<Rightarrow> model_class \<Rightarrow> bool" where
  "has_table db m =
     (case map_of (tables db) (getTableName m) of
        None \<Rightarrow> False
      | Some t \<Rightarrow> wf_table t \<and> columns t = declared_fields m)"

definition auth_schema :: "database \<Rightarrow> bool" where
  "auth_schema db =
     (has_table db User \<and> has_table db Permission \<and> has_table db UserPermission
      \<and> has_table db GroupPermission \<and> has_table db UserGroup)"

section \<open>Sequences of calls\<close>

text \<open>
  A QuerySet is built by \<^verbatim>\<open>new QuerySet(model)\<close> followed by calls of its builder
  methods; these take and return the QuerySet and nothing else.
\<close>

datatype builder_call =
    CallFilter "(string \<times> jsval) list"
  | CallOrderBy string "direction option"
  | CallLimit int
  | CallOffset int

fun builder :: "builder_call \<Rightarrow> queryset \<Rightarrow> queryset" where
  "builder (CallFilter fs) q = QuerySet_filter q fs"
| "builder (CallOrderBy f d) q = QuerySet_orderBy q f d"
| "builder (CallLimit n) q = QuerySet_limit q n"
| "builder (CallOffset n) q = QuerySet_offset q n"

definition build :: "model_class \<Rightarrow> builder_call list \<Rightarrow> queryset" where
  "build m calls = fold builder calls (QuerySet_new m)"

text \<open>
  The terminal methods take the database as well. A call sequence on one QuerySet threads the
  database and the QuerySet (which \<^verbatim>\<open>first\<close> changes) and stops at the first error.
\<close>

datatype terminal_call = CallAll | CallFirst | CallCount | CallDelete

datatype call = Builder builder_call | Terminal terminal_call

fun terminal :: "terminal_call \<Rightarrow> database \<Rightarrow> queryset \<Rightarrow> error + (database \<times> queryset)" where
  "terminal CallAll db q =
     (case QuerySet_all db q of Inl e \<Rightarrow> Inl e | Inr (r, db') \<Rightarrow> Inr (db', q))"
| "terminal CallFirst db q =
     (case QuerySet_first db q of Inl e \<Rightarrow> Inl e | Inr (r, db') \<Rightarrow> Inr (db', QuerySet_limit q 1))"
| "terminal CallCount db q =
     (case QuerySet_count db q of Inl e \<Rightarrow> Inl e | Inr (r, db') \<Rightarrow> Inr (db', q))"
| "terminal CallDelete db q =
     (case QuerySet_delete db q of Inl e \<Rightarrow> Inl e | Inr (r, db') \<Rightarrow> Inr (db', q))"

fun step :: "call \<Rightarrow> database \<times> queryset \<Rightarrow> error + (database \<times> queryset)" where
  "step (Builder c) (db, q) = Inr (db, builder c q)"
| "step (Terminal c) (db, q) = terminal c db q"

fun run_calls :: "call list \<Rightarrow> database \<times> queryset \<Rightarrow> error + (database \<times> queryset)" where
  "run_calls [] w = Inr w"
| "run_calls (c # cs) w = (case step c w of Inl e \<Rightarrow> Inl e | Inr w' \<Rightarrow> run_calls cs w')"

fun is_terminal :: "call \<Rightarrow> bool" where
  "is_terminal (Terminal c) = True"
| "is_terminal (Builder c) = False"

text \<open>What a method returned, when it returned.\<close>

fun returned :: "'e + ('a \<times> 'b) \<Rightarrow> 'a option" where
  "returned (Inl e) = None"
| "returned (Inr (x, s)) = Some x"

section \<open>Auxiliary notions\<close>

text \<open>
  The field that \<^verbatim>\<open>getFields\<close> puts under \<^verbatim>\<open>id\<close>, and the bodies of the
  loops of \<^verbatim>\<open>getFields\<close> and of a sequence of registrations, named for the proofs.
\<close>

definition implicit_id_field :: field where
  "implicit_id_field = set_fieldName AutoField_new ''id''"

definition getFields_step ::
  "string \<times> jsval \<Rightarrow> (string \<times> field) list \<Rightarrow> (string \<times> field) list" where
  "getFields_step = (\<lambda>(key, v) fields.
     case v of JField f \<Rightarrow> AList.update key (set_fieldName f key) fields | _ \<Rightarrow> fields)"

definition register_step :: "model_class \<times> admin_options \<Rightarrow> registry \<Rightarrow> registry" where
  "register_step = (\<lambda>(m, opts) models. registerModel models m opts)"

section \<open>Example models and databases\<close>

text \<open>
  The model \<^verbatim>\<open>Post\<close> of the README: a title and a publication flag, stored in the
  table \<^verbatim>\<open>posts\<close>.
\<close>

definition CharField_new :: "field_options \<Rightarrow> field" where
  "CharField_new opts = Field_new ''CharField'' opts"

text \<open>\<^verbatim>\<open>BooleanField\<close>: \<^verbatim>\<open>super({ default: false, ...options })\<close>\<close>

definition BooleanField_new :: "field_options \<Rightarrow> field" where
  "BooleanField_new opts =
     Field_new ''BooleanField''
       (if is_undefined (default opts)
        then FieldOptions (primaryKey opts) (unique opts) (nullable opts) (JBool False)
               (autoIncrement opts) (maxLength opts) (onDelete opts)
        else opts)"

definition Post :: model_class where
  "Post = \<lparr> name = ''Post'', tableNameOverride = Some ''posts'',
      props = [(''title'', JField (CharField_new
                  (FieldOptions None None None JUndefined None (Some 200) None))),
               (''isPublished'', JField (BooleanField_new
                  (FieldOptions None None None (JBool False) None None None)))] \<rparr>"

definition posts_table :: "row list \<Rightarrow> nat \<Rightarrow> table" where
  "posts_table rs n = \<lparr> columns = [''title'', ''isPublished''], rows = rs, seq = n \<rparr>"

definition empty_db :: database where
  "empty_db = \<lparr> tables = [(''posts'', posts_table [] 0)], executed = [] \<rparr>"

definition two_posts_db :: database where
  "two_posts_db =
     \<lparr> tables = [(''posts'', posts_table
          [[(''id'', JNum 1), (''title'', JStr ''Hello''), (''isPublished'', JNum 0)],
           [(''id'', JNum 2), (''title'', JStr ''World''), (''isPublished'', JNum 1)]] 2)],
       executed = [] \<rparr>"

definition example_calls :: "builder_call list" where
  "example_calls = [CallFilter [(''title'', JStr ''Hello'')], CallLimit 1]"

definition limited_queryset :: queryset where
  "limited_queryset = QuerySet_limit (QuerySet_new Post) 1"

definition example_session :: "call list" where
  "example_session =
     [Builder (CallFilter [(''isPublished'', JNum 1)]), Builder (CallOrderBy ''title'' None),
      Terminal CallCount, Builder (CallLimit 5), Terminal CallAll, Terminal CallFirst]"

definition example_registrations :: "(model_class \<times> admin_options) list" where
  "example_registrations =
     [(Post, \<lparr> appName = None, displayName = None, icon = None, permissions = None \<rparr>),
      (Post, \<lparr> appName = Some ''Blog'', displayName = Some ''Articles'', icon = None,
               permissions = Some [''view''] \<rparr>)]"

definition unsaved_post :: model_instance where
  "unsaved_post = (new_instance Post)\<lparr>attrs := assign (attrs (new_instance Post))
                      [(''title'', JStr ''Draft''), (''isPublished'', JBool True)]\<rparr>"

definition first_post :: model_instance where
  "first_post = hydrate Post [(''id'', JNum 1), (''title'', JStr ''Hello''), (''isPublished'', JNum 0)]"

definition users_columns :: "string list" where
  "users_columns = [''username'', ''email'', ''password'', ''firstName'', ''lastName'', ''isActive'',
                    ''isStaff'', ''isSuperuser'', ''dateJoined'', ''lastLogin'']"

definition user_row :: "int \<Rightarrow> string \<Rightarrow> int \<Rightarrow> row" where
  "user_row i uname super =
     [(''id'', JNum i), (''username'', JStr uname), (''email'', JStr (uname @ ''@example.org'')),
      (''password'', JStr ''hash''), (''firstName'', JNull), (''lastName'', JNull),
      (''isActive'', JNum 1), (''isStaff'', JNum 0), (''isSuperuser'', JNum super),
      (''dateJoined'', JStr ''0''), (''lastLogin'', JNull)]"

definition auth_db :: database where
  "auth_db =
     \<lparr> tables =
         [(''users'', \<lparr> columns = users_columns,
                        rows = [user_row 1 ''ann'' 0, user_row 2 ''bob'' 0, user_row 3 ''root'' 1],
                        seq = 3 \<rparr>),
          (''permissions'', \<lparr> columns = [''name'', ''codename'', ''modelName''],
                        rows = [[(''id'', JNum 1), (''name'', JStr ''Can add Post''),
                                 (''codename'', JStr ''add_post''), (''modelName'', JStr ''Post'')],
                                [(''id'', JNum 2), (''name'', JStr ''Can change Post''),
                                 (''codename'', JStr ''change_post''), (''modelName'', JStr ''Post'')]],
                        seq = 2 \<rparr>),
          (''user_permissions'', \<lparr> columns = [''userId'', ''permissionId''],
                        rows = [[(''id'', JNum 1), (''userId'', JNum 1), (''permissionId'', JNum 1)]],
                        seq = 1 \<rparr>),
          (''group_permissions'', \<lparr> columns = [''groupId'', ''permissionId''],
                        rows = [[(''id'', JNum 1), (''groupId'', JNum 7), (''permissionId'', JNum 2)]],
                        seq = 1 \<rparr>),
          (''user_groups'', \<lparr> columns = [''userId'', ''groupId''],
                        rows = [[(''id'', JNum 1), (''userId'', JNum 2), (''groupId'', JNum 7)]],
                        seq = 1 \<rparr>)],
       executed = [] \<rparr>"

definition new_user :: model_instance where
  "new_user = (new_instance User)\<lparr>attrs := assign (attrs (new_instance User))
      [(''username'', JStr ''eve''), (''email'', JStr ''eve@example.org''),
       (''password'', JStr ''hash''), (''isStaff'', JBool True), (''lastLogin'', JNull)]\<rparr>"


section \<open>Properties\<close>

subsection \<open>The field hierarchy\<close>

lemma constraints_of_spec: "constraints_of opts = spec_constraints opts"
  by (cases "default opts" rule: spec_default_clause.cases)
     (simp_all add: constraints_of_def spec_constraints_def spec_marker_def push_def Let_def)

text \<open>
  Claim C4. For every field, whatever its options, \<^verbatim>\<open>getConstraints()\<close> is the
  blank-separated list of the markers PRIMARY KEY, AUTOINCREMENT, UNIQUE, NOT NULL in this order,
  each present exactly when its option asks for it (NOT NULL when the field is neither nullable
  nor a primary key), followed by the DEFAULT clause: a string default in single quotes, a
  boolean default as 1 or 0, any other literal verbatim, and no clause at all when there is
  no default or the default is a function.
\<close>

theorem getConstraints_markers_in_order:
  "getConstraints f = join '' '' (spec_constraints (options f))"
  by (simp add: getConstraints_def constraints_of_spec)

subsection \<open>QuerySet: compiled statements\<close>

lemma assign_distinct: "distinct (map fst a) \<Longrightarrow> distinct (map fst (assign a b))"
  unfolding assign_def
  by (induction b arbitrary: a) (auto simp: distinct_update split: prod.splits)

lemma get_prop_distinct:
  "distinct (map fst obj) \<Longrightarrow> map (\<lambda>key. get_prop obj key) (map fst obj) = map snd obj"
  by (induction obj) (auto simp: get_prop_def image_iff)

lemma builder_distinct: "distinct (map fst (filters q)) \<Longrightarrow> distinct (map fst (filters (builder c q)))"
  by (cases c) (simp_all add: QuerySet_filter_def QuerySet_orderBy_def QuerySet_limit_def QuerySet_offset_def assign_distinct)

lemma builder_model: "qs_model (builder c q) = qs_model q"
  by (cases c) (simp_all add: QuerySet_filter_def QuerySet_orderBy_def QuerySet_limit_def QuerySet_offset_def)

lemma fold_builder_distinct: "distinct (map fst (filters q)) \<Longrightarrow> distinct (map fst (filters (fold builder cs q)))"
  by (induction cs arbitrary: q) (simp_all add: builder_distinct)

lemma fold_builder_model: "qs_model (fold builder cs q) = qs_model q"
  by (induction cs arbitrary: q) (simp_all add: builder_model)

lemma build_distinct: "distinct (map fst (filters (build m cs)))"
  unfolding build_def by (rule fold_builder_distinct) (simp add: QuerySet_new_def)

lemma render_all_meaning: "render (all_meaning q) = all_query q"
  by (simp add: all_meaning_def all_query_def with_where_def where_clause_def filter_conditions_def Let_def
      split: option.splits direction.splits)

lemma filter_params_distinct: "distinct (map fst (filters q)) \<Longrightarrow> filter_params q = map snd (filters q)"
  using get_prop_distinct [of "filters q"] by (simp add: filter_params_def)

lemma run_statement_executed:
  "run_statement db sql meaning ps = Inr (out, db') \<Longrightarrow> executed db' = executed db @ [(sql, ps)]"
  by (auto simp: run_statement_def split: if_splits option.splits prod.splits)

lemma run_statement_executed_all:
  "QuerySet_all db q = Inr (out, db') \<Longrightarrow> executed db' = executed db @ [(all_query q, filter_params q)]"
  by (auto simp: QuerySet_all_def dest: run_statement_executed split: sum.splits)

lemma terminal_executes_one:
  "terminal c db q = Inr (db', q') \<Longrightarrow> \<exists>sql ps. executed db' = executed db @ [(sql, ps)]"
  by (cases c)
     (auto simp: QuerySet_all_def QuerySet_first_def QuerySet_count_def QuerySet_delete_def
           dest!: run_statement_executed split: sum.splits prod.splits)

lemma step_executed:
  "step c (db, q) = Inr (db', q') \<Longrightarrow>
     (if is_terminal c then \<exists>sql ps. executed db' = executed db @ [(sql, ps)] else db' = db)"
  by (cases c) (auto dest: terminal_executes_one)

lemma run_calls_executed:
  "run_calls cs (db, q) = Inr (db', q') \<Longrightarrow>
     length (executed db') = length (executed db) + length (filter is_terminal cs)
     \<and> (list_all (\<lambda>c. \<not> is_terminal c) cs \<longrightarrow> db' = db)"
proof (induction cs arbitrary: db q)
  case Nil
  then show ?case by simp
next
  case (Cons c cs)
  from Cons.prems obtain db1 q1 where s: "step c (db, q) = Inr (db1, q1)"
    and r: "run_calls cs (db1, q1) = Inr (db', q')"
    by (auto split: sum.splits)
  from Cons.IH [OF r] step_executed [OF s] show ?case
    by (cases "is_terminal c") auto
qed

lemma all_meaning_limit0:
  "all_meaning (QuerySet_limit q 0) = all_meaning (q\<lparr>qs_options := (qs_options q)\<lparr>limit := None\<rparr>\<rparr>)"
  by (simp add: all_meaning_def QuerySet_limit_def split: option.splits)

lemma all_meaning_offset0:
  "all_meaning (QuerySet_offset q 0) = all_meaning (q\<lparr>qs_options := (qs_options q)\<lparr>offset := None\<rparr>\<rparr>)"
  by (simp add: all_meaning_def QuerySet_offset_def split: option.splits)

lemma all_meaning_limit0_id:
  "\<not> truthy_num (limit (qs_options q)) \<Longrightarrow> all_meaning (QuerySet_limit q 0) = all_meaning q"
  by (simp add: all_meaning_def QuerySet_limit_def truthy_num_def split: option.splits)

lemma all_meaning_offset0_id:
  "\<not> truthy_num (offset (qs_options q)) \<Longrightarrow> all_meaning (QuerySet_offset q 0) = all_meaning q"
  by (simp add: all_meaning_def QuerySet_offset_def truthy_num_def split: option.splits)

lemma QuerySet_all_cong:
  "all_meaning q = all_meaning q' \<Longrightarrow> filters q = filters q' \<Longrightarrow> qs_model q = qs_model q'
    \<Longrightarrow> QuerySet_all db q = QuerySet_all db q'"
  by (simp add: QuerySet_all_def filter_params_def flip: render_all_meaning cong: sum.case_cong)

lemma limit0_id:
  "\<not> truthy_num (limit (qs_options q)) \<Longrightarrow> QuerySet_all db (QuerySet_limit q 0) = QuerySet_all db q"
  by (rule QuerySet_all_cong) (simp_all add: all_meaning_limit0_id, simp_all add: QuerySet_limit_def)

lemma offset0_id:
  "\<not> truthy_num (offset (qs_options q)) \<Longrightarrow> QuerySet_all db (QuerySet_offset q 0) = QuerySet_all db q"
  by (rule QuerySet_all_cong) (simp_all add: all_meaning_offset0_id, simp_all add: QuerySet_offset_def)

subsection \<open>The registry\<close>

lemma getFields_fold: "getFields m = fold getFields_step (props m) [(''id'', implicit_id_field)]"
  by (simp add: getFields_def getFields_step_def implicit_id_field_def Let_def)

lemma getFields_step_keys:
  "set (map fst (getFields_step p fs)) =
     set (map fst fs) \<union> (case snd p of JField f \<Rightarrow> {fst p} | _ \<Rightarrow> {})"
  by (cases p) (auto simp: getFields_step_def dom_update split: jsval.splits)

lemma fold_getFields_step_keys:
  "set (map fst (fold getFields_step ps fs)) =
     set (map fst fs) \<union> set (map fst (filter (\<lambda>(k, v). case v of JField f \<Rightarrow> True | _ \<Rightarrow> False) ps))"
proof (induction ps arbitrary: fs)
  case Nil
  then show ?case by simp
next
  case (Cons p ps)
  show ?case
    unfolding fold_simps Cons.IH getFields_step_keys
    by (cases p) (auto split: jsval.splits)
qed

lemma getFields_step_distinct:
  "distinct (map fst fs) \<Longrightarrow> distinct (map fst (getFields_step p fs))"
  by (cases p) (auto simp: getFields_step_def distinct_update split: jsval.splits)

lemma fold_getFields_step_distinct:
  "distinct (map fst fs) \<Longrightarrow> distinct (map fst (fold getFields_step ps fs))"
  by (induction ps arbitrary: fs) (simp_all add: getFields_step_distinct)

lemma getFields_step_head:
  "fs = (k, v) # rest \<Longrightarrow> \<forall>f. p \<noteq> (k, JField f) \<Longrightarrow>
     \<exists>rest'. getFields_step p fs = (k, v) # rest'"
  by (cases p) (auto simp: getFields_step_def split: jsval.splits)

lemma getFields_step_head_key:
  "fs = (k, v) # rest \<Longrightarrow> \<exists>v' rest'. getFields_step p fs = (k, v') # rest'"
  by (cases p) (auto simp: getFields_step_def split: jsval.splits)

lemma fold_getFields_step_head:
  "\<forall>f. (k, JField f) \<notin> set ps \<Longrightarrow>
     \<exists>rest'. fold getFields_step ps ((k, v) # rest) = (k, v) # rest'"
proof (induction ps arbitrary: rest)
  case Nil
  then show ?case by simp
next
  case (Cons p ps)
  from Cons.prems have "\<forall>f. p \<noteq> (k, JField f)" by auto
  from getFields_step_head [OF refl this]
  obtain r where r: "getFields_step p ((k, v) # rest) = (k, v) # r" by blast
  from Cons.prems have "\<forall>f. (k, JField f) \<notin> set ps" by auto
  from Cons.IH [OF this] r show ?case by simp
qed

lemma getFields_head:
  assumes "\<forall>f. (''id'', JField f) \<notin> set (props m)"
  shows "\<exists>rest. getFields m = (''id'', implicit_id_field) # rest \<and> ''id'' \<notin> set (map fst rest)
           \<and> set (map fst rest) = set (declared_fields m)"
proof -
  from fold_getFields_step_head [OF assms]
  obtain rest where r: "getFields m = (''id'', implicit_id_field) # rest"
    unfolding getFields_fold by blast
  have d: "distinct (map fst (getFields m))"
    unfolding getFields_fold by (rule fold_getFields_step_distinct) simp
  with r have nid: "''id'' \<notin> set (map fst rest)" by simp
  have "set (map fst (getFields m)) = {''id''} \<union> set (declared_fields m)"
    unfolding getFields_fold fold_getFields_step_keys declared_fields_def by simp
  moreover have "''id'' \<notin> set (declared_fields m)"
  proof
    assume "''id'' \<in> set (declared_fields m)"
    then obtain v where "(''id'', v) \<in> set (props m)" and "case v of JField f \<Rightarrow> True | _ \<Rightarrow> False"
      by (auto simp: declared_fields_def)
    then obtain f where "(''id'', JField f) \<in> set (props m)"
      by (cases v) auto
    with assms show False by blast
  qed
  ultimately have "insert ''id'' (set (map fst rest)) = insert ''id'' (set (declared_fields m))"
    using r by simp
  with nid \<open>''id'' \<notin> set (declared_fields m)\<close>
  have "set (map fst rest) = set (declared_fields m)"
    by (metis insert_ident)
  with r nid show ?thesis by blast
qed

lemma fold_metadata:
  "distinct (map fst xs) \<Longrightarrow> set (map fst xs) \<inter> set (map fst acc) = {} \<Longrightarrow>
     fold (\<lambda>(k, v) md. AList.update k (g k v) md) xs acc = acc @ map (\<lambda>(k, v). (k, g k v)) xs"
proof (induction xs arbitrary: acc)
  case Nil
  then show ?case by simp
next
  case (Cons x xs)
  obtain k v where x: "x = (k, v)" by (cases x)
  from Cons.prems x have knot: "k \<notin> set (map fst acc)" by auto
  have upd: "AList.update k (g k v) acc = acc @ [(k, g k v)]"
    using knot by (induction acc) auto
  have "set (map fst xs) \<inter> set (map fst (acc @ [(k, g k v)])) = {}"
    using Cons.prems x by auto
  with Cons.IH [of "acc @ [(k, g k v)]"] Cons.prems x upd show ?case by simp
qed

lemma md_fields_metadata_of:
  "md_fields (metadata_of m opts) = map (\<lambda>(k, f). (k, field_metadata_of k f)) (getFields m)"
proof -
  have d: "distinct (map fst (getFields m))"
    unfolding getFields_fold by (rule fold_getFields_step_distinct) simp
  show ?thesis
    using fold_metadata [OF d, of "[]" field_metadata_of] by (simp add: metadata_of_def Let_def)
qed

lemma registerModel_distinct:
  "distinct (map fst r) \<Longrightarrow> distinct (map fst (registerModel r m opts))"
  by (simp add: registerModel_def distinct_update)

lemma fold_register_distinct:
  "distinct (map fst r) \<Longrightarrow> distinct (map fst (fold register_step calls r))"
  by (induction calls arbitrary: r) (auto simp: register_step_def registerModel_distinct)

lemma fold_register_map_of:
  "map_of (fold register_step calls r) =
     map_of (rev (map (\<lambda>(m, opts). (name m, metadata_of m opts)) calls) @ r)"
proof (induction calls arbitrary: r)
  case Nil
  then show ?case by simp
next
  case (Cons c calls)
  obtain m opts where c: "c = (m, opts)" by (cases c)
  show ?case
    unfolding fold_simps Cons.IH
    by (simp add: c register_step_def registerModel_def update_conv' map_add_def fun_eq_iff
        split: option.splits)
qed

lemma fold_register_entries:
  "\<forall>(n, md) \<in> set r. P n md \<Longrightarrow> \<forall>(m, opts) \<in> set calls. P (name m) (metadata_of m opts) \<Longrightarrow>
   \<forall>(n, md) \<in> set (fold register_step calls r). P n md"
proof (induction calls arbitrary: r)
  case Nil
  then show ?case by simp
next
  case (Cons c calls)
  obtain m opts where c: "c = (m, opts)" by (cases c)
  have "set (AList.update (name m) (metadata_of m opts) r) \<subseteq> insert (name m, metadata_of m opts) (set r)"
    by (induction r) auto
  with Cons.prems c have "\<forall>(n, md) \<in> set (register_step c r). P n md"
    by (auto simp: register_step_def registerModel_def)
  from Cons.IH [OF this] Cons.prems show ?case by simp
qed

subsection \<open>QuerySet: statements executed\<close>

lemma digits_small: "n < 10 \<Longrightarrow> digits n = [''0123456789'' ! n]"
  by (subst digits.simps) simp

lemma getTableName_Post: "getTableName Post = ''posts''"
  by (simp add: getTableName_def Post_def)

lemma run_statement_ok:
  assumes "render meaning = sql" and "well_formed meaning"
    and "map_of (tables db) (table_of meaning) = Some t"
    and "columns_known t meaning" and "length params = placeholders meaning"
    and "list_all bindable params"
  shows "run_statement db sql meaning params =
           Inr (snd (execute t meaning params),
                db\<lparr>tables := AList.update (table_of meaning) (fst (execute t meaning params)) (tables db),
                   executed := executed db @ [(sql, params)]\<rparr>)"
  using assms by (simp add: run_statement_def split: prod.splits)

lemma build_example:
  "build Post example_calls =
     \<lparr> qs_model = Post, filters = [(''title'', JStr ''Hello'')],
       qs_options = \<lparr> limit = Some 1, offset = None, orderBy = None, orderDirection = None \<rparr> \<rparr>"
  by (simp add: build_def example_calls_def QuerySet_new_def QuerySet_filter_def QuerySet_limit_def assign_def)

lemma all_query_example:
  "all_query (build Post example_calls) = ''SELECT * FROM posts WHERE title = ? LIMIT 1''"
  by (simp add: build_example all_query_def with_where_def filter_conditions_def getTableName_Post
      show_int_def digits_small Let_def)

lemmas driver_defs =
  run_statement_def where_clause_def readable_def matches_def column_value_def project_def
  ordered_def window_def show_int_def digits_small

lemmas queryset_defs =
  QuerySet_new_def QuerySet_filter_def QuerySet_orderBy_def QuerySet_limit_def QuerySet_offset_def
  build_def assign_def get_prop_def filter_conditions_def filter_params_def with_where_def
  all_query_def all_meaning_def hydrate_def new_instance_def QuerySet_all_def QuerySet_first_def
  count_query_def QuerySet_count_def delete_query_def QuerySet_delete_def
  objects_all_def objects_filter_def objects_get_def

lemmas Post_defs =
  Post_def getTableName_def posts_table_def empty_db_def two_posts_db_def


text \<open>
  Claim C2. For every QuerySet built from \<^verbatim>\<open>new QuerySet(model)\<close> by any sequence of
  \<^verbatim>\<open>filter\<close>, \<^verbatim>\<open>orderBy\<close>, \<^verbatim>\<open>limit\<close> and \<^verbatim>\<open>offset\<close> calls,
  the text that \<^verbatim>\<open>all()\<close> builds is the printed form of one SELECT statement on the
  model's table whose WHERE clause is the conjunction of one equality \<^verbatim>\<open>key = ?\<close> per
  filter key, followed by the optional ORDER BY, LIMIT and OFFSET clauses; the filter keys are
  distinct, the parameters are the filter values in the order of the keys, and a call of
  \<^verbatim>\<open>all()\<close> that returns has executed exactly this one statement.
\<close>

theorem all_compiles_one_equality_select:
  "let q = build m calls in
     all_query q = render (all_meaning q)
     \<and> (\<exists>ord lim off. all_meaning q = Select (getTableName m) (map fst (filters q)) ord lim off)
     \<and> distinct (map fst (filters q))
     \<and> filter_params q = map snd (filters q)
     \<and> (\<forall>rs db'. QuerySet_all db q = Inr (rs, db') \<longrightarrow>
            executed db' = executed db @ [(all_query q, map snd (filters q))])"
proof -
  have m: "qs_model (build m calls) = m"
    by (simp add: build_def fold_builder_model QuerySet_new_def)
  have p: "filter_params (build m calls) = map snd (filters (build m calls))"
    by (rule filter_params_distinct) (rule build_distinct)
  have e: "\<exists>ord lim off. all_meaning (build m calls)
             = Select (getTableName m) (map fst (filters (build m calls))) ord lim off"
    by (simp add: all_meaning_def m)
  show ?thesis
    unfolding Let_def
    using e p build_distinct [of m calls] run_statement_executed_all [of db "build m calls"]
    by (simp add: render_all_meaning)
qed

theorem all_compiles_one_equality_select_witness:
  "\<exists>rs db'. QuerySet_all two_posts_db (build Post example_calls) = Inr (rs, db')
     \<and> executed db' = [(''SELECT * FROM posts WHERE title = ? LIMIT 1'', [JStr ''Hello''])]"
proof -
  obtain rs db' where r: "QuerySet_all two_posts_db (build Post example_calls) = Inr (rs, db')"
    by (simp add: driver_defs queryset_defs Post_defs example_calls_def Let_def)
  have q: "all_query (build Post example_calls) = ''SELECT * FROM posts WHERE title = ? LIMIT 1''"
    by (simp add: driver_defs queryset_defs Post_defs example_calls_def Let_def)
  have f: "filters (build Post example_calls) = [(''title'', JStr ''Hello'')]"
    by (simp add: queryset_defs example_calls_def)
  have x: "executed two_posts_db = []"
    by (simp add: two_posts_db_def)
  from all_compiles_one_equality_select [of Post example_calls two_posts_db] r
  have "executed db' = executed two_posts_db
          @ [(all_query (build Post example_calls), map snd (filters (build Post example_calls)))]"
    unfolding Let_def by blast
  with r q f x show ?thesis by simp
qed


text \<open>
  Claim C10, as stated, fails on a QuerySet that already stores a limit: on
  \<^verbatim>\<open>Post.objects.all().limit(1)\<close>, the call \<^verbatim>\<open>limit(0)\<close> removes the LIMIT
  clause, and against a table of two rows the query returns two rows where it returned one.
\<close>

theorem limit_zero_not_identity_counterexample:
  "all_query limited_queryset = ''SELECT * FROM posts LIMIT 1''
   \<and> all_query (QuerySet_limit limited_queryset 0) = ''SELECT * FROM posts''
   \<and> map_option length (returned (QuerySet_all two_posts_db limited_queryset)) = Some 1
   \<and> map_option length (returned (QuerySet_all two_posts_db (QuerySet_limit limited_queryset 0))) = Some 2"
  by (simp add: limited_queryset_def driver_defs queryset_defs Post_defs Let_def)

lemma all_query_limit_differs:
  assumes "truthy_num (limit (qs_options q))"
  shows "all_query (QuerySet_limit q 0) \<noteq> all_query q"
proof
  assume eq: "all_query (QuerySet_limit q 0) = all_query q"
  from assms obtain n where n: "limit (qs_options q) = Some n" "n \<noteq> 0"
    by (auto simp: truthy_num_def split: option.splits)
  have "length (all_query q) = length (all_query (QuerySet_limit q 0)) + length ('' LIMIT '' @ show_int n)"
    unfolding render_all_meaning [symmetric]
    by (simp add: all_meaning_def QuerySet_limit_def n split: option.splits)
  with eq show False by simp
qed

lemma all_query_offset_differs:
  assumes "truthy_num (offset (qs_options q))"
  shows "all_query (QuerySet_offset q 0) \<noteq> all_query q"
proof
  assume eq: "all_query (QuerySet_offset q 0) = all_query q"
  from assms obtain n where n: "offset (qs_options q) = Some n" "n \<noteq> 0"
    by (auto simp: truthy_num_def split: option.splits)
  have "length (all_query q) = length (all_query (QuerySet_offset q 0)) + length ('' OFFSET '' @ show_int n)"
    unfolding render_all_meaning [symmetric]
    by (simp add: all_meaning_def QuerySet_offset_def n split: option.splits)
  with eq show False by simp
qed

lemma all_meaning_limit_stored:
  assumes "limit (qs_options q) = Some n" and "n \<noteq> 0"
  shows "\<exists>ord off. all_meaning q = Select (getTableName (qs_model q)) (map fst (filters q)) ord (Some n) off
           \<and> all_meaning (QuerySet_limit q 0)
               = Select (getTableName (qs_model q)) (map fst (filters q)) ord None off"
  using assms by (simp add: all_meaning_def QuerySet_limit_def split: option.splits)

lemma all_meaning_offset_stored:
  assumes "offset (qs_options q) = Some n" and "n \<noteq> 0"
  shows "\<exists>ord lim. all_meaning q = Select (getTableName (qs_model q)) (map fst (filters q)) ord lim (Some n)
           \<and> all_meaning (QuerySet_offset q 0)
               = Select (getTableName (qs_model q)) (map fst (filters q)) ord lim None"
  using assms by (simp add: all_meaning_def QuerySet_offset_def split: option.splits)

text \<open>
  Claim C10, amended. For every QuerySet \<open>q\<close>, \<^verbatim>\<open>q.limit(0)\<close> compiles to the
  statement of \<open>q\<close> with no stored limit, and \<^verbatim>\<open>q.offset(0)\<close> to the statement of
  \<open>q\<close> with no stored offset (no LIMIT or OFFSET clause is emitted for a zero). The
  statement compiled for \<^verbatim>\<open>q.limit(0).all()\<close> is the statement compiled for
  \<^verbatim>\<open>q.all()\<close> exactly when \<open>q\<close> stores no non-zero limit, and then both calls
  return the same result. When \<open>q\<close> stores a non-zero limit \<open>n\<close>, the statement of
  \<^verbatim>\<open>q.all()\<close> carries \<^verbatim>\<open>LIMIT n\<close> and that of \<^verbatim>\<open>q.limit(0).all()\<close>
  is the same statement without a LIMIT clause. Likewise for the offset.
\<close>

theorem limit_zero_clears_limit:
  "all_query (QuerySet_limit q 0) = all_query (q\<lparr>qs_options := (qs_options q)\<lparr>limit := None\<rparr>\<rparr>)
   \<and> all_query (QuerySet_offset q 0) = all_query (q\<lparr>qs_options := (qs_options q)\<lparr>offset := None\<rparr>\<rparr>)
   \<and> (all_query (QuerySet_limit q 0) = all_query q \<longleftrightarrow> \<not> truthy_num (limit (qs_options q)))
   \<and> (all_query (QuerySet_offset q 0) = all_query q \<longleftrightarrow> \<not> truthy_num (offset (qs_options q)))
   \<and> (\<forall>n. limit (qs_options q) = Some n \<and> n \<noteq> 0 \<longrightarrow>
         (\<exists>ord off.
            all_meaning q = Select (getTableName (qs_model q)) (map fst (filters q)) ord (Some n) off
            \<and> all_meaning (QuerySet_limit q 0)
                = Select (getTableName (qs_model q)) (map fst (filters q)) ord None off))
   \<and> (\<forall>n. offset (qs_options q) = Some n \<and> n \<noteq> 0 \<longrightarrow>
         (\<exists>ord lim.
            all_meaning q = Select (getTableName (qs_model q)) (map fst (filters q)) ord lim (Some n)
            \<and> all_meaning (QuerySet_offset q 0)
                = Select (getTableName (qs_model q)) (map fst (filters q)) ord lim None))
   \<and> (\<not> truthy_num (limit (qs_options q)) \<longrightarrow>
         QuerySet_all db (QuerySet_limit q 0) = QuerySet_all db q)
   \<and> (\<not> truthy_num (offset (qs_options q)) \<longrightarrow>
         QuerySet_all db (QuerySet_offset q 0) = QuerySet_all db q)"
proof -
  have 1: "all_query (QuerySet_limit q 0) = all_query (q\<lparr>qs_options := (qs_options q)\<lparr>limit := None\<rparr>\<rparr>)"
    by (simp add: all_meaning_limit0 flip: render_all_meaning)
  have 2: "all_query (QuerySet_offset q 0) = all_query (q\<lparr>qs_options := (qs_options q)\<lparr>offset := None\<rparr>\<rparr>)"
    by (simp add: all_meaning_offset0 flip: render_all_meaning)
  have "\<not> truthy_num (limit (qs_options q)) \<Longrightarrow> all_query (QuerySet_limit q 0) = all_query q"
    by (simp add: all_meaning_limit0_id flip: render_all_meaning)
  with all_query_limit_differs [of q]
  have 3: "all_query (QuerySet_limit q 0) = all_query q \<longleftrightarrow> \<not> truthy_num (limit (qs_options q))"
    by blast
  have "\<not> truthy_num (offset (qs_options q)) \<Longrightarrow> all_query (QuerySet_offset q 0) = all_query q"
    by (simp add: all_meaning_offset0_id flip: render_all_meaning)
  with all_query_offset_differs [of q]
  have 4: "all_query (QuerySet_offset q 0) = all_query q \<longleftrightarrow> \<not> truthy_num (offset (qs_options q))"
    by blast
  show ?thesis
    using 1 2 3 4 all_meaning_limit_stored [of q] all_meaning_offset_stored [of q]
      limit0_id [of q db] offset0_id [of q db]
    by blast
qed

theorem limit_zero_clears_limit_witness:
  "\<not> truthy_num (limit (qs_options (QuerySet_new Post)))
   \<and> \<not> truthy_num (offset (qs_options (QuerySet_new Post)))
   \<and> all_query (QuerySet_limit (QuerySet_new Post) 0) = all_query (QuerySet_new Post)
   \<and> QuerySet_all two_posts_db (QuerySet_limit (QuerySet_new Post) 0)
       = QuerySet_all two_posts_db (QuerySet_new Post)
   \<and> QuerySet_all two_posts_db (QuerySet_offset (QuerySet_new Post) 0)
       = QuerySet_all two_posts_db (QuerySet_new Post)
   \<and> map_option length (returned (QuerySet_all two_posts_db (QuerySet_new Post))) = Some 2
   \<and> limit (qs_options (QuerySet_limit (QuerySet_new Post) 5)) = Some 5
   \<and> all_query (QuerySet_limit (QuerySet_limit (QuerySet_new Post) 5) 0)
       \<noteq> all_query (QuerySet_limit (QuerySet_new Post) 5)
   \<and> (\<exists>ord off.
         all_meaning (QuerySet_limit (QuerySet_new Post) 5) = Select ''posts'' [] ord (Some 5) off
         \<and> all_meaning (QuerySet_limit (QuerySet_limit (QuerySet_new Post) 5) 0)
             = Select ''posts'' [] ord None off)
   \<and> offset (qs_options (QuerySet_offset (QuerySet_new Post) 3)) = Some 3
   \<and> all_query (QuerySet_offset (QuerySet_offset (QuerySet_new Post) 3) 0)
       \<noteq> all_query (QuerySet_offset (QuerySet_new Post) 3)
   \<and> (\<exists>ord lim.
         all_meaning (QuerySet_offset (QuerySet_new Post) 3) = Select ''posts'' [] ord lim (Some 3)
         \<and> all_meaning (QuerySet_offset (QuerySet_offset (QuerySet_new Post) 3) 0)
             = Select ''posts'' [] ord lim None)"
proof -
  have l: "\<not> truthy_num (limit (qs_options (QuerySet_new Post)))"
    and o: "\<not> truthy_num (offset (qs_options (QuerySet_new Post)))"
    by (simp_all add: QuerySet_new_def truthy_num_def)
  have l5: "limit (qs_options (QuerySet_limit (QuerySet_new Post) 5)) = Some 5"
    and o3: "offset (qs_options (QuerySet_offset (QuerySet_new Post) 3)) = Some 3"
    by (simp_all add: QuerySet_new_def QuerySet_limit_def QuerySet_offset_def)
  have t5: "truthy_num (limit (qs_options (QuerySet_limit (QuerySet_new Post) 5)))"
    and t3: "truthy_num (offset (qs_options (QuerySet_offset (QuerySet_new Post) 3)))"
    by (simp_all add: l5 o3 truthy_num_def)
  have m5: "getTableName (qs_model (QuerySet_limit (QuerySet_new Post) 5)) = ''posts''"
      "filters (QuerySet_limit (QuerySet_new Post) 5) = []"
    and m3: "getTableName (qs_model (QuerySet_offset (QuerySet_new Post) 3)) = ''posts''"
      "filters (QuerySet_offset (QuerySet_new Post) 3) = []"
    by (simp_all add: QuerySet_new_def QuerySet_limit_def QuerySet_offset_def getTableName_Post)
  have n: "map_option length (returned (QuerySet_all two_posts_db (QuerySet_new Post))) = Some 2"
    by (simp add: driver_defs queryset_defs Post_defs Let_def)
  from limit_zero_clears_limit [of "QuerySet_new Post" two_posts_db] l o
  have a: "all_query (QuerySet_limit (QuerySet_new Post) 0) = all_query (QuerySet_new Post)
     \<and> QuerySet_all two_posts_db (QuerySet_limit (QuerySet_new Post) 0)
       = QuerySet_all two_posts_db (QuerySet_new Post)
     \<and> QuerySet_all two_posts_db (QuerySet_offset (QuerySet_new Post) 0)
       = QuerySet_all two_posts_db (QuerySet_new Post)"
    by blast
  note at5 = limit_zero_clears_limit [of "QuerySet_limit (QuerySet_new Post) 5" two_posts_db]
  from at5 t5
  have b: "all_query (QuerySet_limit (QuerySet_limit (QuerySet_new Post) 5) 0)
       \<noteq> all_query (QuerySet_limit (QuerySet_new Post) 5)"
    by blast
  from at5 l5
  have b': "\<exists>ord off.
         all_meaning (QuerySet_limit (QuerySet_new Post) 5) = Select ''posts'' [] ord (Some 5) off
         \<and> all_meaning (QuerySet_limit (QuerySet_limit (QuerySet_new Post) 5) 0)
             = Select ''posts'' [] ord None off"
    unfolding m5 by simp
  note at3 = limit_zero_clears_limit [of "QuerySet_offset (QuerySet_new Post) 3" two_posts_db]
  from at3 t3
  have c: "all_query (QuerySet_offset (QuerySet_offset (QuerySet_new Post) 3) 0)
       \<noteq> all_query (QuerySet_offset (QuerySet_new Post) 3)"
    by blast
  from at3 o3
  have c': "\<exists>ord lim.
         all_meaning (QuerySet_offset (QuerySet_new Post) 3) = Select ''posts'' [] ord lim (Some 3)
         \<and> all_meaning (QuerySet_offset (QuerySet_offset (QuerySet_new Post) 3) 0)
             = Select ''posts'' [] ord lim None"
    unfolding m3 by simp
  from l o a n l5 b b' o3 c c' show ?thesis by blast
qed

text \<open>
  Claim C9. A sequence of builder calls (\<^verbatim>\<open>filter\<close>, \<^verbatim>\<open>orderBy\<close>,
  \<^verbatim>\<open>limit\<close>, \<^verbatim>\<open>offset\<close>) always returns and leaves the database, with its
  record of executed statements, as it was. In any sequence of calls that returns, the number
  of statements executed is the number of terminal calls (\<^verbatim>\<open>all\<close>, \<^verbatim>\<open>first\<close>,
  \<^verbatim>\<open>count\<close>, \<^verbatim>\<open>delete\<close>) in it: one statement each.
\<close>

theorem builders_execute_nothing:
  "(list_all (\<lambda>c. \<not> is_terminal c) cs \<longrightarrow> (\<exists>q'. run_calls cs (db, q) = Inr (db, q')))
   \<and> (\<forall>db' q'. run_calls cs (db, q) = Inr (db', q') \<longrightarrow>
         length (executed db') = length (executed db) + length (filter is_terminal cs))"
proof
  show "list_all (\<lambda>c. \<not> is_terminal c) cs \<longrightarrow> (\<exists>q'. run_calls cs (db, q) = Inr (db, q'))"
  proof (induction cs arbitrary: q)
    case Nil
    then show ?case by simp
  next
    case (Cons c cs)
    then show ?case by (cases c) auto
  qed
  show "\<forall>db' q'. run_calls cs (db, q) = Inr (db', q') \<longrightarrow>
         length (executed db') = length (executed db) + length (filter is_terminal cs)"
    using run_calls_executed by blast
qed

theorem builders_execute_nothing_witness:
  "(\<exists>q'. run_calls (take 2 example_session) (two_posts_db, QuerySet_new Post) = Inr (two_posts_db, q'))
   \<and> (\<exists>db' q'. run_calls example_session (two_posts_db, QuerySet_new Post) = Inr (db', q')
         \<and> length (executed db') = 3)"
proof -
  have b: "list_all (\<lambda>c. \<not> is_terminal c) (take 2 example_session)"
    by (simp add: example_session_def)
  obtain db' q' where r: "run_calls example_session (two_posts_db, QuerySet_new Post) = Inr (db', q')"
    by (simp add: example_session_def driver_defs queryset_defs Post_defs Let_def)
  have t: "length (filter is_terminal example_session) = 3"
    by (simp add: example_session_def)
  have x: "executed two_posts_db = []"
    by (simp add: two_posts_db_def)
  from builders_execute_nothing [of "take 2 example_session" two_posts_db "QuerySet_new Post"] b
  have 1: "\<exists>q'. run_calls (take 2 example_session) (two_posts_db, QuerySet_new Post) = Inr (two_posts_db, q')"
    by blast
  from builders_execute_nothing [of example_session two_posts_db "QuerySet_new Post"] r
  have "length (executed db') = length (executed two_posts_db) + length (filter is_terminal example_session)"
    by blast
  with r t x 1 show ?thesis by auto
qed


lemma register_all_fold: "register_all calls = fold register_step calls []"
  by (simp add: register_all_def register_step_def)

lemma md_model_metadata_of: "md_model (metadata_of m opts) = m"
  by (simp add: metadata_of_def Let_def)

lemma implicit_id_field_facts:
  "className implicit_id_field = ''AutoField''"
  "fieldName implicit_id_field = ''id''"
  "primaryKey (options implicit_id_field) = Some True"
  "autoIncrement (options implicit_id_field) = Some True"
  by (simp_all add: implicit_id_field_def set_fieldName_def AutoField_new_def Field_new_def)

text \<open>
  Claim C5. After any sequence of \<^verbatim>\<open>registerModel\<close> calls on models that do not
  themselves declare a field under the name \<^verbatim>\<open>id\<close> (the type \<^verbatim>\<open>id?: number\<close>
  of \<^verbatim>\<open>Model\<close> rules such a declaration out), the registry has one entry per model name,
  the entry of a name is the metadata of the last call with that name, and the field metadata of
  every entry starts with the implicit \<^verbatim>\<open>id\<close> field, an \<^verbatim>\<open>AutoField\<close> that
  is an auto-incrementing primary key, followed by the declared fields.
\<close>

theorem registry_one_entry_per_name:
  assumes "\<forall>(m, opts) \<in> set calls. \<forall>f. (''id'', JField f) \<notin> set (props m)"
  shows "distinct (map fst (register_all calls))
    \<and> map_of (register_all calls)
        = map_of (rev (map (\<lambda>(m, opts). (name m, metadata_of m opts)) calls))
    \<and> (\<forall>(n, md) \<in> set (register_all calls). \<exists>rest.
          md_fields md = (''id'', field_metadata_of ''id'' implicit_id_field) # rest
          \<and> ''id'' \<notin> set (map fst rest)
          \<and> set (map fst rest) = set (declared_fields (md_model md)))
    \<and> fm_type (field_metadata_of ''id'' implicit_id_field) = ''AutoField''
    \<and> truthy_opt (primaryKey (options implicit_id_field))
    \<and> truthy_opt (autoIncrement (options implicit_id_field))"
proof -
  have 1: "distinct (map fst (register_all calls))"
    unfolding register_all_fold by (rule fold_register_distinct) simp
  have 2: "map_of (register_all calls)
             = map_of (rev (map (\<lambda>(m, opts). (name m, metadata_of m opts)) calls))"
    unfolding register_all_fold fold_register_map_of by simp
  let ?P = "\<lambda>(n::string) md. \<exists>rest.
          md_fields md = (''id'', field_metadata_of ''id'' implicit_id_field) # rest
          \<and> ''id'' \<notin> set (map fst rest)
          \<and> set (map fst rest) = set (declared_fields (md_model md))"
  have each: "?P (name m) (metadata_of m opts)" if "(m, opts) \<in> set calls" for m opts
  proof -
    from assms that have "\<forall>f. (''id'', JField f) \<notin> set (props m)" by blast
    from getFields_head [OF this] obtain rest where
      r: "getFields m = (''id'', implicit_id_field) # rest" and
      n: "''id'' \<notin> set (map fst rest)" and
      d: "set (map fst rest) = set (declared_fields m)" by blast
    have "md_fields (metadata_of m opts) =
            (''id'', field_metadata_of ''id'' implicit_id_field)
            # map (\<lambda>(k, f). (k, field_metadata_of k f)) rest"
      by (simp add: md_fields_metadata_of r)
    moreover have "map fst (map (\<lambda>(k, f). (k, field_metadata_of k f)) rest) = map fst rest"
      by (induction rest) auto
    ultimately have "md_fields (metadata_of m opts) =
            (''id'', field_metadata_of ''id'' implicit_id_field)
            # map (\<lambda>(k, f). (k, field_metadata_of k f)) rest
        \<and> ''id'' \<notin> set (map fst (map (\<lambda>(k, f). (k, field_metadata_of k f)) rest))
        \<and> set (map fst (map (\<lambda>(k, f). (k, field_metadata_of k f)) rest))
            = set (declared_fields (md_model (metadata_of m opts)))"
      using n d by (simp only: md_model_metadata_of) simp
    then show ?thesis
      unfolding prod.case by (rule exI)
  qed
  have 3: "\<forall>(n, md) \<in> set (register_all calls). ?P n md"
    unfolding register_all_fold
    by (rule fold_register_entries) (use each in auto)
  show ?thesis
    using 1 2 3 by (simp add: implicit_id_field_facts field_metadata_of_def)
qed

lemma getFields_Post:
  "getFields Post =
     [(''id'', implicit_id_field),
      (''title'', set_fieldName (CharField_new
          (FieldOptions None None None JUndefined None (Some 200) None)) ''title''),
      (''isPublished'', set_fieldName (BooleanField_new
          (FieldOptions None None None (JBool False) None None None)) ''isPublished'')]"
  by (simp add: getFields_def Post_def implicit_id_field_def Let_def)

theorem registry_one_entry_per_name_witness:
  "map fst (register_all example_registrations) = [''Post'']
   \<and> distinct (map fst (register_all example_registrations))
   \<and> map_option md_displayName (map_of (register_all example_registrations) ''Post'') = Some ''Articles''
   \<and> map_option (map fst \<circ> md_fields) (map_of (register_all example_registrations) ''Post'')
       = Some [''id'', ''title'', ''isPublished'']"
proof -
  have h: "\<forall>(m, opts) \<in> set example_registrations. \<forall>f. (''id'', JField f) \<notin> set (props m)"
    by (simp add: example_registrations_def Post_def)
  have k: "map fst (register_all example_registrations) = [''Post'']"
    by (simp add: example_registrations_def register_all_def registerModel_def Post_def)
  have m: "map_of (rev (map (\<lambda>(m, opts). (name m, metadata_of m opts)) example_registrations)) ''Post''
             = Some (metadata_of Post \<lparr> appName = Some ''Blog'', displayName = Some ''Articles'',
                       icon = None, permissions = Some [''view''] \<rparr>)"
    by (simp add: example_registrations_def Post_def)
  from registry_one_entry_per_name [OF h]
  have d: "distinct (map fst (register_all example_registrations))"
    and l: "map_of (register_all example_registrations)
        = map_of (rev (map (\<lambda>(m, opts). (name m, metadata_of m opts)) example_registrations))"
    by blast+
  have f: "map fst (md_fields (metadata_of Post opts)) = [''id'', ''title'', ''isPublished'']" for opts
    by (simp add: md_fields_metadata_of getFields_Post)
  have n: "md_displayName (metadata_of Post \<lparr> appName = Some ''Blog'', displayName = Some ''Articles'',
                       icon = None, permissions = Some [''view''] \<rparr>) = ''Articles''"
    by (simp add: metadata_of_def or_else_def Let_def)
  show ?thesis
    using k d f n by (simp add: l m)
qed

subsection \<open>Model: save and delete\<close>

lemma coerce_boolean_spec:
  "coerce_boolean v = (case v of JBool True \<Rightarrow> JNum 1 | JBool False \<Rightarrow> JNum 0 | _ \<Rightarrow> v)"
  by (cases v) (auto split: bool.splits)

lemma resolve_value_spec:
  "resolve_value f v clock =
     (case spec_resolve f v clock of None \<Rightarrow> (None, clock) | Some (v', clock') \<Rightarrow> (Some v', clock'))"
  by (simp add: resolve_value_def spec_resolve_def spec_step1_def spec_step2_def spec_step3_def
        has_default_def coerce_boolean_spec Let_def split: prod.splits)

lemma update_fresh: "k \<notin> set (map fst al) \<Longrightarrow> AList.update k v al = al @ [(k, v)]"
  by (induction al) auto

lemma collect_data_spec:
  "distinct (map fst fs) \<Longrightarrow> set (map fst fs) \<inter> set (map fst data) = {} \<Longrightarrow>
   collect_data fs this data clock =
     (data @ fst (spec_persisted fs this clock), snd (spec_persisted fs this clock))"
proof (induction fs arbitrary: data clock)
  case Nil
  then show ?case by simp
next
  case (Cons p fs)
  obtain fname f where p: "p = (fname, f)" by (cases p)
  from Cons.prems p have fresh: "fname \<notin> set (map fst data)" and d: "distinct (map fst fs)"
    and nin: "fname \<notin> set (map fst fs)"
    and disj: "set (map fst fs) \<inter> set (map fst data) = {}"
    by auto
  show ?case
  proof (cases "fname = ''id''")
    case True
    with Cons.IH [OF d disj] p show ?thesis by simp
  next
    case False
    show ?thesis
    proof (cases "spec_resolve f (get_prop this fname) clock")
      case None
      with Cons.IH [OF d disj] p False show ?thesis
        by (simp add: resolve_value_spec)
    next
      case (Some r)
      obtain v clock' where r: "r = (v, clock')" by (cases r)
      have disj': "set (map fst fs) \<inter> set (map fst (data @ [(fname, v)])) = {}"
        using disj nin by auto
      from Cons.IH [OF d disj', of clock'] p False Some r fresh show ?thesis
        by (simp add: resolve_value_spec update_fresh split: prod.splits)
    qed
  qed
qed

lemma getFields_distinct: "distinct (map fst (getFields m))"
  unfolding getFields_fold by (rule fold_getFields_step_distinct) simp

lemma collect_data_getFields:
  "collect_data (getFields m) this [] clock = spec_persisted (getFields m) this clock"
  using collect_data_spec [OF getFields_distinct, of m "[]" this clock] by simp



lemma run_statement_Inr_iff:
  "(\<exists>r. run_statement db sql meaning params = Inr r) \<longleftrightarrow>
     (render meaning = sql \<and> well_formed meaning
      \<and> (\<exists>t. map_of (tables db) (table_of meaning) = Some t \<and> columns_known t meaning)
      \<and> length params = placeholders meaning \<and> list_all bindable params)"
  by (auto simp: run_statement_def split: option.splits prod.splits)

lemma render_delete_sql: "render (DeleteFrom t [''id'']) = delete_sql t"
  by (simp add: delete_sql_def where_clause_def)

lemma render_insert_sql: "render (InsertInto t (map fst data)) = insert_sql t data"
  by (simp add: insert_sql_def Let_def)

lemma render_update_sql: "render (UpdateSet t (map fst data)) = update_sql t data"
  by (simp add: update_sql_def Let_def)

lemma Model_delete_ok:
  assumes "truthy (get_prop (attrs this) ''id'')"
    and "map_of (tables db) (getTableName (cls this)) = Some t"
    and "bindable (get_prop (attrs this) ''id'')"
  shows "\<exists>db'. Model_delete db this = Inr db'"
proof -
  have "\<exists>r. run_statement db (delete_sql (getTableName (cls this)))
       (DeleteFrom (getTableName (cls this)) [''id'']) [get_prop (attrs this) ''id''] = Inr r"
    unfolding run_statement_Inr_iff using assms
    by (auto simp: delete_sql_def where_clause_def readable_def)
  with assms(1) show ?thesis
    by (auto simp: Model_delete_def Let_def split: sum.splits)
qed

text \<open>
  Claim C6. On an instance whose \<^verbatim>\<open>id\<close> is not populated (absent, or falsy as the
  test \<^verbatim>\<open>!this.id\<close> reads it), \<^verbatim>\<open>delete()\<close> fails with the error
  \<^verbatim>\<open>Cannot delete unsaved object\<close> and executes nothing. On an instance with an
  \<^verbatim>\<open>id\<close>, a \<^verbatim>\<open>delete()\<close> that returns has executed exactly
  \<^verbatim>\<open>DELETE FROM <table> WHERE id = ?\<close> with that id, and it does return when the table
  exists and the id can be bound.
\<close>

theorem delete_requires_id:
  "(\<not> truthy (get_prop (attrs this) ''id'') \<longrightarrow>
      Model_delete db this = Inl (Error ''Cannot delete unsaved object''))
   \<and> (truthy (get_prop (attrs this) ''id'') \<longrightarrow>
        (\<forall>db'. Model_delete db this = Inr db' \<longrightarrow>
           executed db' = executed db
             @ [(''DELETE FROM '' @ getTableName (cls this) @ '' WHERE id = ?'',
                 [get_prop (attrs this) ''id''])])
        \<and> ((\<exists>t. map_of (tables db) (getTableName (cls this)) = Some t)
             \<and> bindable (get_prop (attrs this) ''id'') \<longrightarrow>
             (\<exists>db'. Model_delete db this = Inr db')))"
proof (intro conjI impI allI)
  assume "\<not> truthy (get_prop (attrs this) ''id'')"
  then show "Model_delete db this = Inl (Error ''Cannot delete unsaved object'')"
    by (simp add: Model_delete_def)
next
  fix db'
  assume t: "truthy (get_prop (attrs this) ''id'')" and d: "Model_delete db this = Inr db'"
  from t d obtain result where
    "run_statement db (delete_sql (getTableName (cls this)))
       (DeleteFrom (getTableName (cls this)) [''id'']) [get_prop (attrs this) ''id'']
     = Inr (result, db')"
    by (auto simp: Model_delete_def Let_def split: sum.splits)
  from run_statement_executed [OF this]
  show "executed db' = executed db
          @ [(''DELETE FROM '' @ getTableName (cls this) @ '' WHERE id = ?'',
              [get_prop (attrs this) ''id''])]"
    by (simp add: delete_sql_def)
next
  assume t: "truthy (get_prop (attrs this) ''id'')"
    and c: "(\<exists>t. map_of (tables db) (getTableName (cls this)) = Some t)
             \<and> bindable (get_prop (attrs this) ''id'')"
  from c obtain tb where "map_of (tables db) (getTableName (cls this)) = Some tb" by blast
  from Model_delete_ok [OF t this] c show "\<exists>db'. Model_delete db this = Inr db'" by blast
qed

lemmas model_defs =
  Model_save_def Model_delete_def update_sql_def insert_sql_def delete_sql_def
  resolve_value_def getFields_def AutoField_new_def Field_new_def CharField_new_def
  BooleanField_new_def set_fieldName_def unsaved_post_def first_post_def

theorem delete_requires_id_witness:
  "Model_delete two_posts_db unsaved_post = Inl (Error ''Cannot delete unsaved object'')
   \<and> (\<exists>db'. Model_delete two_posts_db first_post = Inr db'
         \<and> executed db' = [(''DELETE FROM posts WHERE id = ?'', [JNum 1])])"
proof -
  have u: "\<not> truthy (get_prop (attrs unsaved_post) ''id'')"
    by (simp add: unsaved_post_def queryset_defs Post_defs)
  have i: "get_prop (attrs first_post) ''id'' = JNum 1" and c: "getTableName (cls first_post) = ''posts''"
    by (simp_all add: first_post_def queryset_defs Post_defs)
  have t: "\<exists>t. map_of (tables two_posts_db) ''posts'' = Some t"
    by (simp add: two_posts_db_def)
  have x: "executed two_posts_db = []"
    by (simp add: two_posts_db_def)
  from delete_requires_id [of unsaved_post two_posts_db] u
  have 1: "Model_delete two_posts_db unsaved_post = Inl (Error ''Cannot delete unsaved object'')"
    by blast
  from delete_requires_id [of first_post two_posts_db] i c t
  obtain db' where d: "Model_delete two_posts_db first_post = Inr db'"
    by auto
  with delete_requires_id [of first_post two_posts_db] i c
  have "executed db' = executed two_posts_db @ [(''DELETE FROM posts WHERE id = ?'', [JNum 1])]"
    by auto
  with 1 d x show ?thesis by simp
qed


lemmas auth_defs =
  User_def Permission_def UserPermission_def GroupPermission_def UserGroup_def bare_options_def
  toISOString_def users_columns_def user_row_def auth_db_def new_user_def

text \<open>
  Claim C1. For every field and attribute value, the loop body of \<^verbatim>\<open>save\<close> is the three
  steps in their order: a value that still is a field descriptor takes the field's default (a
  callable default is called at the current clock) or, without a default, the column is skipped;
  a null or undefined value takes the default when there is one; a boolean is written as 1 or 0.
  For every instance, the record \<^verbatim>\<open>data\<close> that \<^verbatim>\<open>save\<close> assembles holds exactly
  the declared non-id fields so resolved, in their order, and a \<^verbatim>\<open>save\<close> that returns has
  executed one INSERT or UPDATE carrying these columns and values.
\<close>

theorem save_resolves_values:
  "resolve_value f v clock =
     (case spec_resolve f v clock of None \<Rightarrow> (None, clock) | Some (v', clock') \<Rightarrow> (Some v', clock'))
   \<and> collect_data (getFields (cls this)) (attrs this) [] clock
       = spec_persisted (getFields (cls this)) (attrs this) clock
   \<and> (\<forall>this' db' clock'. Model_save db clock this = Inr (this', db', clock') \<longrightarrow>
        (case spec_persisted (getFields (cls this)) (attrs this) clock of
           (data, clock'') \<Rightarrow>
             clock' = clock''
             \<and> executed db' = executed db
                 @ [if truthy (get_prop (attrs this) ''id'')
                    then (update_sql (getTableName (cls this)) data,
                          map snd data @ [get_prop (attrs this) ''id''])
                    else (insert_sql (getTableName (cls this)) data, map snd data)]))"
proof (intro conjI allI impI)
  show "resolve_value f v clock =
     (case spec_resolve f v clock of None \<Rightarrow> (None, clock) | Some (v', clock') \<Rightarrow> (Some v', clock'))"
    by (rule resolve_value_spec)
  show "collect_data (getFields (cls this)) (attrs this) [] clock
       = spec_persisted (getFields (cls this)) (attrs this) clock"
    by (rule collect_data_getFields)
  fix this' db' clock'
  assume s: "Model_save db clock this = Inr (this', db', clock')"
  obtain data clock'' where
    p: "spec_persisted (getFields (cls this)) (attrs this) clock = (data, clock'')"
    by (cases "spec_persisted (getFields (cls this)) (attrs this) clock")
  show "case spec_persisted (getFields (cls this)) (attrs this) clock of
           (data, clock'') \<Rightarrow>
             clock' = clock''
             \<and> executed db' = executed db
                 @ [if truthy (get_prop (attrs this) ''id'')
                    then (update_sql (getTableName (cls this)) data,
                          map snd data @ [get_prop (attrs this) ''id''])
                    else (insert_sql (getTableName (cls this)) data, map snd data)]"
    using s
    by (auto simp: Model_save_def Let_def collect_data_getFields p
          dest!: run_statement_executed split: if_splits sum.splits)
qed

lemma getFields_User: "map fst (getFields User) = ''id'' # users_columns"
  by (simp add: getFields_def User_def users_columns_def Let_def)

lemma spec_persisted_new_user:
  "spec_persisted (getFields (cls new_user)) (attrs new_user) 7 =
     ([(''username'', JStr ''eve''), (''email'', JStr ''eve@example.org''),
       (''password'', JStr ''hash''), (''isActive'', JNum 0),
       (''isStaff'', JNum 1), (''isSuperuser'', JNum 0),
       (''dateJoined'', JStr ''7''), (''lastLogin'', JNull)], 8)"
  by (simp add: auth_defs model_defs queryset_defs spec_resolve_def spec_step1_def spec_step2_def
      spec_step3_def has_default_def show_int_def digits_small Let_def)

theorem save_resolves_values_witness:
  "\<exists>this' db'. Model_save auth_db 7 new_user = Inr (this', db', 8)
     \<and> executed db' =
         [(''INSERT INTO users (username, email, password, isActive, isStaff, isSuperuser, dateJoined, lastLogin) VALUES (?, ?, ?, ?, ?, ?, ?, ?)'',
           [JStr ''eve'', JStr ''eve@example.org'', JStr ''hash'', JNum 0, JNum 1, JNum 0,
            JStr ''7'', JNull])]"
proof -
  have i: "\<not> truthy (get_prop (attrs new_user) ''id'')"
    and t: "getTableName (cls new_user) = ''users''"
    by (simp_all add: new_user_def queryset_defs User_def getTableName_def)
  obtain this' db' clock' where s: "Model_save auth_db 7 new_user = Inr (this', db', clock')"
    by (simp add: Model_save_def collect_data_getFields spec_persisted_new_user i t Let_def
          run_statement_def insert_sql_def auth_db_def users_columns_def)
  have x: "executed auth_db = []"
    by (simp add: auth_db_def)
  from save_resolves_values [where this = new_user and clock = 7 and db = auth_db,
         THEN conjunct2, THEN conjunct2, rule_format, OF s]
  have "case spec_persisted (getFields (cls new_user)) (attrs new_user) 7 of
           (data, clock'') \<Rightarrow>
             clock' = clock''
             \<and> executed db' = executed auth_db
                 @ [if truthy (get_prop (attrs new_user) ''id'')
                    then (update_sql (getTableName (cls new_user)) data,
                          map snd data @ [get_prop (attrs new_user) ''id''])
                    else (insert_sql (getTableName (cls new_user)) data, map snd data)]" .
  with s i t x show ?thesis
    by (simp add: spec_persisted_new_user insert_sql_def)
qed












lemma get_prop_update_same: "get_prop (AList.update k v al) k = v"
  by (simp add: get_prop_def update_conv')

lemma unsaved_post_attrs:
  "attrs unsaved_post = [(''title'', JStr ''Draft''), (''isPublished'', JBool True)]"
  "cls unsaved_post = Post"
  by (simp_all add: unsaved_post_def queryset_defs Post_def)

lemma collect_unsaved_post:
  "collect_data (getFields Post) [(''title'', JStr ''Draft''), (''isPublished'', JBool True)] [] clock =
     ([(''title'', JStr ''Draft''), (''isPublished'', JNum 1)], clock)"
  by (simp add: getFields_Post resolve_value_def get_prop_def set_fieldName_def
        CharField_new_def BooleanField_new_def Field_new_def Let_def)

lemma save_unsaved_post:
  "Model_save empty_db 0 unsaved_post =
     Inr (unsaved_post\<lparr>attrs := [(''title'', JStr ''Draft''), (''isPublished'', JBool True),
                                   (''id'', JNum 1)]\<rparr>,
          \<lparr> tables = [(''posts'', posts_table
               [[(''id'', JNum 1), (''title'', JStr ''Draft''), (''isPublished'', JNum 1)]] 1)],
            executed = [(''INSERT INTO posts (title, isPublished) VALUES (?, ?)'',
                         [JStr ''Draft'', JNum 1])] \<rparr>, 0)"
  by (simp add: Model_save_def unsaved_post_attrs collect_unsaved_post Let_def
        get_prop_def getTableName_Post insert_sql_def
        run_statement_def empty_db_def posts_table_def)

subsection \<open>Reading rows back through a QuerySet\<close>

lemma map_of_assign_rev: "map_of (assign a b) k = (case map_of (rev b) k of Some v \<Rightarrow> Some v | None \<Rightarrow> map_of a k)"
proof (induction b arbitrary: a)
  case Nil
  then show ?case by (simp add: assign_def)
next
  case (Cons p b)
  obtain k' v' where p: "p = (k', v')" by (cases p)
  have "assign a (p # b) = assign (AList.update k' v' a) b"
    by (simp add: assign_def p)
  then show ?case
    by (simp add: Cons.IH p update_conv' map_add_def split: option.splits)
qed

lemma get_prop_assign:
  "get_prop (assign a b) k = (case map_of (rev b) k of Some v \<Rightarrow> v | None \<Rightarrow> get_prop a k)"
  by (simp add: get_prop_def map_of_assign_rev split: option.splits)

lemma map_of_rev_project:
  "map_of (rev (project t r)) c = (if readable t c then Some (column_value r c) else None)"
proof -
  have "map_of (map (\<lambda>c. (c, column_value r c)) cs) c
          = (if c \<in> set cs then Some (column_value r c) else None)" for cs
    by (induction cs) auto
  from this [of "rev (''id'' # columns t)"] show ?thesis
    unfolding project_def rev_map readable_def by simp
qed

lemma get_prop_hydrate:
  "get_prop (attrs (hydrate m (project t r))) c =
     (if readable t c then column_value r c else get_prop (props m) c)"
  by (simp add: hydrate_def new_instance_def get_prop_assign map_of_rev_project)

lemma update_same: "map_of al k = Some v \<Longrightarrow> AList.update k v al = al"
  by (rule update_triv)

lemma matches_single: "matches [c] [v] = (\<lambda>r. sql_eq (column_value r c) v)"
  by (simp add: matches_def fun_eq_iff)

lemma select_by_column:
  assumes t: "map_of (tables db) (getTableName m) = Some t"
    and c: "readable t c" and v: "bindable v"
  shows "QuerySet_all db (objects_filter m [(c, v)]) =
           Inr (map (hydrate m \<circ> project t) (filter (\<lambda>r. sql_eq (column_value r c) v) (rows t)),
                db\<lparr>executed := executed db
                      @ [(''SELECT * FROM '' @ getTableName m @ '' WHERE '' @ c @ '' = ?'', [v])]\<rparr>)"
proof -
  let ?q = "objects_filter m [(c, v)]"
  have q: "filters ?q = [(c, v)]" "qs_model ?q = m"
    "all_meaning ?q = Select (getTableName m) [c] None None None"
    by (simp_all add: objects_filter_def QuerySet_filter_def QuerySet_new_def assign_def all_meaning_def)
  have r: "all_query ?q = ''SELECT * FROM '' @ getTableName m @ '' WHERE '' @ c @ '' = ?''"
    unfolding render_all_meaning [symmetric] q by (simp add: where_clause_def)
  have p: "filter_params ?q = [v]"
    by (simp add: filter_params_def q get_prop_def)
  have e: "run_statement db (all_query ?q) (all_meaning ?q) [v] =
     Inr (snd (execute t (all_meaning ?q) [v]),
          db\<lparr>tables := AList.update (table_of (all_meaning ?q)) (fst (execute t (all_meaning ?q) [v])) (tables db),
             executed := executed db @ [(all_query ?q, [v])]\<rparr>)"
    by (rule run_statement_ok) (simp add: render_all_meaning, simp_all add: q t c v)
  show ?thesis
    unfolding QuerySet_all_def p e
    by (simp add: q r update_same [OF t] matches_single ordered_def window_def)
qed

lemma get_by_column:
  assumes t: "map_of (tables db) (getTableName m) = Some t"
    and c: "readable t c" and v: "bindable v"
  shows "objects_get db m [(c, v)] =
           Inr (case filter (\<lambda>r. sql_eq (column_value r c) v) (rows t) of
                  [] \<Rightarrow> None | r # rs \<Rightarrow> Some (hydrate m (project t r)),
                db\<lparr>executed := executed db
                      @ [(''SELECT * FROM '' @ getTableName m @ '' WHERE '' @ c @ '' = ? LIMIT 1'', [v])]\<rparr>)"
proof -
  let ?q = "QuerySet_limit (QuerySet_filter (QuerySet_new m) [(c, v)]) 1"
  have q: "filters ?q = [(c, v)]" "qs_model ?q = m"
    "all_meaning ?q = Select (getTableName m) [c] None (Some 1) None"
    by (simp_all add: QuerySet_limit_def QuerySet_filter_def QuerySet_new_def assign_def all_meaning_def)
  have r: "all_query ?q = ''SELECT * FROM '' @ getTableName m @ '' WHERE '' @ c @ '' = ? LIMIT 1''"
    unfolding render_all_meaning [symmetric] q by (simp add: where_clause_def show_int_def digits_small)
  have p: "filter_params ?q = [v]"
    by (simp add: filter_params_def q get_prop_def)
  have e: "run_statement db (all_query ?q) (all_meaning ?q) [v] =
     Inr (snd (execute t (all_meaning ?q) [v]),
          db\<lparr>tables := AList.update (table_of (all_meaning ?q)) (fst (execute t (all_meaning ?q) [v])) (tables db),
             executed := executed db @ [(all_query ?q, [v])]\<rparr>)"
    by (rule run_statement_ok) (simp add: render_all_meaning, simp_all add: q t c v)
  show ?thesis
    unfolding objects_get_def QuerySet_first_def QuerySet_all_def p e
    by (cases "filter (\<lambda>r. sql_eq (column_value r c) v) (rows t)")
       (simp_all add: q r update_same [OF t] matches_single ordered_def window_def)
qed


lemma wf_table_rowid:
  assumes "wf_table t" and "r \<in> set (rows t)"
  obtains n where "rowid r = Some n" and "column_value r ''id'' = JNum n"
    and "0 < n" and "n \<le> int (seq t)"
proof -
  from assms have "case rowid r of Some n \<Rightarrow> 0 < n \<and> n \<le> int (seq t) | None \<Rightarrow> False"
    by (simp add: wf_table_def list_all_iff)
  then obtain n where n: "rowid r = Some n" "0 < n" "n \<le> int (seq t)"
    by (cases "rowid r") auto
  from n(1) have "column_value r ''id'' = JNum n"
    by (auto simp: rowid_def column_value_def split: option.splits jsval.splits)
  with n that show ?thesis by blast
qed

lemma sql_eq_same: "sql_eq a v \<Longrightarrow> sql_eq b v \<Longrightarrow> a = b"
  by (cases a; cases v; cases b) simp_all

lemma wf_table_unique:
  assumes wf: "wf_table t" and r1: "r1 \<in> set (rows t)" and r2: "r2 \<in> set (rows t)"
    and e1: "sql_eq (column_value r1 ''id'') v" and e2: "sql_eq (column_value r2 ''id'') v"
  shows "r1 = r2"
proof -
  from wf r1 obtain n1 where n1: "rowid r1 = Some n1" "column_value r1 ''id'' = JNum n1"
    by (rule wf_table_rowid)
  from wf r2 obtain n2 where n2: "rowid r2 = Some n2" "column_value r2 ''id'' = JNum n2"
    by (rule wf_table_rowid)
  from sql_eq_same [OF e1 e2] n1 n2 have "rowid r1 = rowid r2" by simp
  moreover from wf have "inj_on rowid (set (rows t))"
    by (simp add: wf_table_def distinct_map)
  ultimately show ?thesis using r1 r2 by (auto dest: inj_onD)
qed

lemma storable_bindable: "storable v \<Longrightarrow> bindable v"
  by (cases v) simp_all

lemma wf_table_bindable:
  assumes "wf_table t" and "r \<in> set (rows t)"
  shows "bindable (column_value r c)"
proof (cases "map_of r c")
  case None
  then show ?thesis by (simp add: column_value_def)
next
  case (Some v)
  then have "(c, v) \<in> set r" by (rule map_of_SomeD)
  with assms have "storable v"
    by (auto simp: wf_table_def list_all_iff)
  with Some show ?thesis by (simp add: column_value_def storable_bindable)
qed

lemma table_rows_Some: "map_of (tables db) tn = Some t \<Longrightarrow> table_rows db tn = rows t"
  by (simp add: table_rows_def)

lemma strict_eq_str_iff: "strict_eq_str v s \<longleftrightarrow> v = JStr s"
  by (cases v) auto

lemma getTableName_auth:
  "getTableName User = ''users''" "getTableName Permission = ''permissions''"
  "getTableName UserPermission = ''user_permissions''"
  "getTableName GroupPermission = ''group_permissions''"
  "getTableName UserGroup = ''user_groups''"
  by (simp_all add: getTableName_def User_def Permission_def UserPermission_def
        GroupPermission_def UserGroup_def)

lemma permission_lookup:
  assumes pt: "map_of (tables db) ''permissions'' = Some pt" and wf: "wf_table pt"
    and col: "''codename'' \<in> set (columns pt)" and b: "bindable pid"
  shows "\<exists>perm db'. objects_get db Permission [(''id'', pid)] = Inr (perm, db')
           \<and> tables db' = tables db
           \<and> ((case perm of None \<Rightarrow> False
                | Some p \<Rightarrow> strict_eq_str (get_prop (attrs p) ''codename'') cn)
               \<longleftrightarrow> links_codename db pid cn)"
proof -
  let ?P = "\<lambda>r. sql_eq (column_value r ''id'') pid"
  have rd: "readable pt ''id''" "readable pt ''codename''"
    using col by (simp_all add: readable_def)
  note g = get_by_column [of db Permission, unfolded getTableName_auth, OF pt rd(1) b]
  show ?thesis
  proof (cases "filter ?P (rows pt)")
    case Nil
    then have "\<not> links_codename db pid cn"
      by (auto simp: links_codename_def table_rows_Some [OF pt] filter_empty_conv)
    with g Nil show ?thesis by simp
  next
    case (Cons r0 rs)
    then have "r0 \<in> set (filter ?P (rows pt))" by simp
    then have r0: "r0 \<in> set (rows pt)" "?P r0" by simp_all
    have u: "\<forall>r \<in> set (rows pt). ?P r \<longrightarrow> r = r0"
      using wf_table_unique [OF wf _ r0(1) _ r0(2)] by blast
    have "links_codename db pid cn \<longleftrightarrow>
            (\<exists>p \<in> set (rows pt). ?P p \<and> column_value p ''codename'' = JStr cn)"
      by (simp add: links_codename_def table_rows_Some [OF pt])
    also have "\<dots> \<longleftrightarrow> column_value r0 ''codename'' = JStr cn"
      using r0 u by blast
    finally have "links_codename db pid cn \<longleftrightarrow> column_value r0 ''codename'' = JStr cn" .
    with g Cons rd show ?thesis
      by (simp add: get_prop_hydrate strict_eq_str_iff)
  qed
qed

lemma links_codename_cong: "tables db' = tables db \<Longrightarrow> links_codename db' = links_codename db"
  by (simp add: links_codename_def table_rows_def fun_eq_iff)

lemma permission_loop_spec:
  assumes pt: "map_of tbls ''permissions'' = Some pt" and wf: "wf_table pt"
    and col: "''codename'' \<in> set (columns pt)"
  shows "tables db = tbls \<Longrightarrow>
         \<forall>perm \<in> set perms. bindable (get_prop (attrs perm) ''permissionId'') \<Longrightarrow>
         \<exists>db'. permission_loop db cn perms =
                  Inr (\<exists>perm \<in> set perms.
                         links_codename db (get_prop (attrs perm) ''permissionId'') cn, db')
               \<and> tables db' = tbls"
proof (induction perms arbitrary: db)
  case Nil
  then show ?case by simp
next
  case (Cons perm perms)
  from Cons.prems have b: "bindable (get_prop (attrs perm) ''permissionId'')"
    and bs: "\<forall>perm \<in> set perms. bindable (get_prop (attrs perm) ''permissionId'')"
    by simp_all
  from pt Cons.prems(1) have pt': "map_of (tables db) ''permissions'' = Some pt" by simp
  from permission_lookup [OF pt' wf col b, of cn]
  obtain permission db1 where
    g: "objects_get db Permission [(''id'', get_prop (attrs perm) ''permissionId'')]
          = Inr (permission, db1)"
    and t1: "tables db1 = tables db"
    and l: "(case permission of None \<Rightarrow> False
             | Some p \<Rightarrow> strict_eq_str (get_prop (attrs p) ''codename'') cn)
            \<longleftrightarrow> links_codename db (get_prop (attrs perm) ''permissionId'') cn"
    by blast
  from t1 Cons.prems(1) have t1': "tables db1 = tbls" by simp
  from Cons.IH [OF t1' bs] obtain db' where
    r: "permission_loop db1 cn perms =
          Inr (\<exists>perm \<in> set perms. links_codename db1 (get_prop (attrs perm) ''permissionId'') cn, db')"
    and t': "tables db' = tbls" by blast
  show ?case
  proof (cases "links_codename db (get_prop (attrs perm) ''permissionId'') cn")
    case True
    with g l t1' show ?thesis by simp
  next
    case False
    with g l r t' show ?thesis
      by (simp add: links_codename_cong [OF t1])
  qed
qed


lemma select_tables:
  assumes t: "map_of (tables db) (getTableName m) = Some t"
    and c: "readable t c" and v: "bindable v"
  obtains db' where
    "QuerySet_all db (objects_filter m [(c, v)]) =
       Inr (map (hydrate m \<circ> project t) (filter (\<lambda>r. sql_eq (column_value r c) v) (rows t)), db')"
    and "tables db' = tables db"
  using select_by_column [OF t c v] by simp

lemma group_loop_spec:
  assumes pt: "map_of tbls ''permissions'' = Some pt" and wfp: "wf_table pt"
    and colp: "''codename'' \<in> set (columns pt)"
    and gpt: "map_of tbls ''group_permissions'' = Some gpt" and wfg: "wf_table gpt"
    and colg: "''groupId'' \<in> set (columns gpt)" "''permissionId'' \<in> set (columns gpt)"
  shows "tables db = tbls \<Longrightarrow>
         \<forall>ug \<in> set ugs. bindable (get_prop (attrs ug) ''groupId'') \<Longrightarrow>
         \<exists>db'. group_loop db cn ugs =
                  Inr (\<exists>ug \<in> set ugs. \<exists>gp \<in> set (rows gpt).
                         sql_eq (column_value gp ''groupId'') (get_prop (attrs ug) ''groupId'')
                         \<and> links_codename db (column_value gp ''permissionId'') cn, db')
               \<and> tables db' = tbls"
proof (induction ugs arbitrary: db)
  case Nil
  then show ?case by simp
next
  case (Cons ug ugs)
  let ?gid = "get_prop (attrs ug) ''groupId''"
  let ?rs = "filter (\<lambda>r. sql_eq (column_value r ''groupId'') ?gid) (rows gpt)"
  let ?gps = "map (hydrate GroupPermission \<circ> project gpt) ?rs"
  from Cons.prems have b: "bindable ?gid"
    and bs: "\<forall>ug \<in> set ugs. bindable (get_prop (attrs ug) ''groupId'')"
    by simp_all
  have rd: "readable gpt ''groupId''" "readable gpt ''permissionId''"
    using colg by (simp_all add: readable_def)
  from gpt Cons.prems(1)
  have gpt': "map_of (tables db) (getTableName GroupPermission) = Some gpt"
    by (simp add: getTableName_auth)
  from select_tables [OF gpt' rd(1) b] obtain db1 where
    q: "QuerySet_all db (objects_filter GroupPermission [(''groupId'', ?gid)]) = Inr (?gps, db1)"
    and t1: "tables db1 = tables db" by blast
  from t1 Cons.prems(1) have t1': "tables db1 = tbls" by simp
  have bp: "\<forall>perm \<in> set ?gps. bindable (get_prop (attrs perm) ''permissionId'')"
    using wf_table_bindable [OF wfg] rd by (auto simp: get_prop_hydrate)
  from permission_loop_spec [OF pt wfp colp t1' bp, of cn] obtain db2 where
    p: "permission_loop db1 cn ?gps =
          Inr (\<exists>perm \<in> set ?gps. links_codename db1 (get_prop (attrs perm) ''permissionId'') cn, db2)"
    and t2: "tables db2 = tbls" by blast
  have found: "(\<exists>perm \<in> set ?gps. links_codename db1 (get_prop (attrs perm) ''permissionId'') cn)
     \<longleftrightarrow> (\<exists>gp \<in> set (rows gpt). sql_eq (column_value gp ''groupId'') ?gid
              \<and> links_codename db (column_value gp ''permissionId'') cn)"
    using rd by (auto simp: get_prop_hydrate links_codename_cong [OF t1])
  from Cons.IH [OF t2 bs] obtain db' where
    r: "group_loop db2 cn ugs =
          Inr (\<exists>ug \<in> set ugs. \<exists>gp \<in> set (rows gpt).
                 sql_eq (column_value gp ''groupId'') (get_prop (attrs ug) ''groupId'')
                 \<and> links_codename db2 (column_value gp ''permissionId'') cn, db')"
    and t': "tables db' = tbls" by blast
  have c2: "links_codename db2 = links_codename db"
    by (rule links_codename_cong) (simp add: t2 Cons.prems(1))
  let ?G = "\<exists>gp \<in> set (rows gpt). sql_eq (column_value gp ''groupId'') ?gid
              \<and> links_codename db (column_value gp ''permissionId'') cn"
  have p': "permission_loop db1 cn ?gps = Inr (?G, db2)"
    unfolding found [symmetric] by (rule p)
  have step: "group_loop db cn (ug # ugs) =
                (if ?G then Inr (True, db2) else group_loop db2 cn ugs)"
    by (simp only: group_loop.simps q p' sum.case prod.case)
  show ?case
  proof (cases ?G)
    case True
    then have "group_loop db cn (ug # ugs) = Inr (True, db2)"
      by (simp only: step if_True)
    moreover from True have "\<exists>ug' \<in> set (ug # ugs). \<exists>gp \<in> set (rows gpt).
                 sql_eq (column_value gp ''groupId'') (get_prop (attrs ug') ''groupId'')
                 \<and> links_codename db (column_value gp ''permissionId'') cn"
      by simp
    ultimately show ?thesis using t2 by simp
  next
    case False
    then have "group_loop db cn (ug # ugs) = group_loop db2 cn ugs"
      by (simp only: step if_False)
    moreover from False have "(\<exists>ug' \<in> set (ug # ugs). \<exists>gp \<in> set (rows gpt).
                 sql_eq (column_value gp ''groupId'') (get_prop (attrs ug') ''groupId'')
                 \<and> links_codename db (column_value gp ''permissionId'') cn)
       \<longleftrightarrow> (\<exists>ug' \<in> set ugs. \<exists>gp \<in> set (rows gpt).
                 sql_eq (column_value gp ''groupId'') (get_prop (attrs ug') ''groupId'')
                 \<and> links_codename db (column_value gp ''permissionId'') cn)"
      by auto
    ultimately show ?thesis using r t' by (simp add: c2)
  qed
qed

lemma has_tableD:
  assumes "has_table db m"
  obtains t where "map_of (tables db) (getTableName m) = Some t" and "wf_table t"
    and "columns t = declared_fields m"
  using assms by (auto simp: has_table_def split: option.splits)

lemma declared_fields_auth:
  "declared_fields User = [''username'', ''email'', ''password'', ''firstName'', ''lastName'',
      ''isActive'', ''isStaff'', ''isSuperuser'', ''dateJoined'', ''lastLogin'']"
  "declared_fields Permission = [''name'', ''codename'', ''modelName'']"
  "declared_fields UserPermission = [''userId'', ''permissionId'']"
  "declared_fields GroupPermission = [''groupId'', ''permissionId'']"
  "declared_fields UserGroup = [''userId'', ''groupId'']"
  by (simp_all add: declared_fields_def User_def Permission_def UserPermission_def
        GroupPermission_def UserGroup_def)

subsection \<open>The permission service\<close>

lemma granted_cong:
  "tables db' = tables db \<Longrightarrow> granted_directly db' = granted_directly db"
  "tables db' = tables db \<Longrightarrow> granted_via_group db' = granted_via_group db"
  by (simp_all add: granted_directly_def granted_via_group_def links_codename_cong [of db' db]
        table_rows_def fun_eq_iff)

lemma hasPermission_spec:
  assumes schema: "auth_schema db"
    and u: "u \<in> set (table_rows db ''users'')"
    and uid: "column_value u ''id'' = JNum userId"
    and nosuper: "\<not> truthy (column_value u ''isSuperuser'')"
  shows "\<exists>db'. hasPermission db userId cn =
           Inr (granted_directly db userId cn \<or> granted_via_group db userId cn, db')"
proof -
  from schema obtain ut pt upt gpt ugt where
    ut: "map_of (tables db) (getTableName User) = Some ut" "wf_table ut"
        "columns ut = declared_fields User"
    and pt: "map_of (tables db) (getTableName Permission) = Some pt" "wf_table pt"
        "columns pt = declared_fields Permission"
    and upt: "map_of (tables db) (getTableName UserPermission) = Some upt" "wf_table upt"
        "columns upt = declared_fields UserPermission"
    and gpt: "map_of (tables db) (getTableName GroupPermission) = Some gpt" "wf_table gpt"
        "columns gpt = declared_fields GroupPermission"
    and ugt: "map_of (tables db) (getTableName UserGroup) = Some ugt" "wf_table ugt"
        "columns ugt = declared_fields UserGroup"
    unfolding auth_schema_def by (elim conjE has_tableD) blast
  note tn = getTableName_auth
  note cols = declared_fields_auth
  let ?uid = "JNum userId"
  \<comment> \<open>the user\<close>
  have urows: "table_rows db ''users'' = rows ut"
    using ut(1) by (simp add: table_rows_def tn)
  let ?P = "\<lambda>r. sql_eq (column_value r ''id'') ?uid"
  from u uid urows have u_in: "u \<in> set (rows ut)" and Pu: "?P u" by simp_all
  have "u \<in> set (filter ?P (rows ut))" using u_in Pu by simp
  then obtain r0 rs where f: "filter ?P (rows ut) = r0 # rs"
    by (cases "filter ?P (rows ut)") auto
  then have "r0 \<in> set (filter ?P (rows ut))" by simp
  then have "r0 \<in> set (rows ut)" "?P r0" by simp_all
  from wf_table_unique [OF ut(2) this(1) u_in this(2) Pu] have r0: "r0 = u" .
  have rdu: "readable ut ''id''" "readable ut ''isSuperuser''"
    by (simp_all add: readable_def ut(3) cols)
  let ?db1 = "db\<lparr>executed := executed db
                @ [(''SELECT * FROM '' @ getTableName User @ '' WHERE '' @ ''id'' @ '' = ? LIMIT 1'',
                    [?uid])]\<rparr>"
  have g: "objects_get db User [(''id'', ?uid)] = Inr (Some (hydrate User (project ut u)), ?db1)"
    using get_by_column [OF ut(1) rdu(1), of ?uid] f r0 by simp
  have t1: "tables ?db1 = tables db" by simp
  have ns: "\<not> truthy (get_prop (attrs (hydrate User (project ut u))) ''isSuperuser'')"
    using nosuper rdu by (simp add: get_prop_hydrate)
  \<comment> \<open>direct permissions\<close>
  have rdup: "readable upt ''userId''" "readable upt ''permissionId''"
    by (simp_all add: readable_def upt(3) cols)
  have upt1: "map_of (tables ?db1) (getTableName UserPermission) = Some upt"
    using upt(1) by simp
  let ?ups = "filter (\<lambda>r. sql_eq (column_value r ''userId'') ?uid) (rows upt)"
  let ?userPerms = "map (hydrate UserPermission \<circ> project upt) ?ups"
  from select_tables [OF upt1 rdup(1), of ?uid] obtain db2 where
    q2: "QuerySet_all ?db1 (objects_filter UserPermission [(''userId'', ?uid)]) = Inr (?userPerms, db2)"
    and t2: "tables db2 = tables db" by auto
  have bp: "\<forall>perm \<in> set ?userPerms. bindable (get_prop (attrs perm) ''permissionId'')"
    using wf_table_bindable [OF upt(2)] rdup by (auto simp: get_prop_hydrate)
  have ptc: "map_of (tables db) ''permissions'' = Some pt" "''codename'' \<in> set (columns pt)"
    using pt by (simp_all add: tn cols)
  from permission_loop_spec [OF ptc(1) pt(2) ptc(2) t2 bp, of cn] obtain db3 where
    p3: "permission_loop db2 cn ?userPerms =
           Inr (\<exists>perm \<in> set ?userPerms. links_codename db2 (get_prop (attrs perm) ''permissionId'') cn, db3)"
    and t3: "tables db3 = tables db" by blast
  have direct: "(\<exists>perm \<in> set ?userPerms. links_codename db2 (get_prop (attrs perm) ''permissionId'') cn)
      \<longleftrightarrow> granted_directly db userId cn"
    using rdup upt(1)
    by (auto simp: get_prop_hydrate links_codename_cong [OF t2] granted_directly_def table_rows_def tn)
  have p3': "permission_loop db2 cn ?userPerms = Inr (granted_directly db userId cn, db3)"
    unfolding direct [symmetric] by (rule p3)
  \<comment> \<open>groups\<close>
  have rdug: "readable ugt ''userId''" "readable ugt ''groupId''"
    by (simp_all add: readable_def ugt(3) cols)
  have ugt3: "map_of (tables db3) (getTableName UserGroup) = Some ugt"
    using ugt(1) t3 by simp
  let ?ugs = "filter (\<lambda>r. sql_eq (column_value r ''userId'') ?uid) (rows ugt)"
  let ?userGroups = "map (hydrate UserGroup \<circ> project ugt) ?ugs"
  from select_tables [OF ugt3 rdug(1), of ?uid] obtain db4 where
    q4: "QuerySet_all db3 (objects_filter UserGroup [(''userId'', ?uid)]) = Inr (?userGroups, db4)"
    and t4: "tables db4 = tables db" using t3 by auto
  have bg: "\<forall>ug \<in> set ?userGroups. bindable (get_prop (attrs ug) ''groupId'')"
    using wf_table_bindable [OF ugt(2)] rdug by (auto simp: get_prop_hydrate)
  have gptc: "map_of (tables db) ''group_permissions'' = Some gpt"
    "''groupId'' \<in> set (columns gpt)" "''permissionId'' \<in> set (columns gpt)"
    using gpt by (simp_all add: tn cols)
  from group_loop_spec [OF ptc(1) pt(2) ptc(2) gptc(1) gpt(2) gptc(2) gptc(3) t4 bg, of cn]
  obtain db5 where
    g5: "group_loop db4 cn ?userGroups =
           Inr (\<exists>ug \<in> set ?userGroups. \<exists>gp \<in> set (rows gpt).
                  sql_eq (column_value gp ''groupId'') (get_prop (attrs ug) ''groupId'')
                  \<and> links_codename db4 (column_value gp ''permissionId'') cn, db5)"
    by blast
  have via: "(\<exists>ug \<in> set ?userGroups. \<exists>gp \<in> set (rows gpt).
                  sql_eq (column_value gp ''groupId'') (get_prop (attrs ug) ''groupId'')
                  \<and> links_codename db4 (column_value gp ''permissionId'') cn)
      \<longleftrightarrow> granted_via_group db userId cn"
    using rdug ugt(1) gpt(1)
    by (auto simp: get_prop_hydrate links_codename_cong [OF t4] granted_via_group_def
          table_rows_def tn)
  have g5': "group_loop db4 cn ?userGroups = Inr (granted_via_group db userId cn, db5)"
    unfolding via [symmetric] by (rule g5)
  have step: "hasPermission db userId cn =
      (if granted_directly db userId cn then Inr (True, db3)
       else Inr (granted_via_group db userId cn, db5))"
    unfolding hasPermission_def
    by (simp only: g q2 p3' q4 g5' ns sum.case prod.case option.case if_False)
  show ?thesis
    unfolding step by (cases "granted_directly db userId cn") simp_all
qed


text \<open>
  Claim C8. On a database with the auth schema, for every existing user who is not a superuser
  and every action and model name, \<^verbatim>\<open>hasModelPermission\<close> returns, and returns true
  exactly when the codename \<^verbatim>\<open><action>_<lowercased model name>\<close> is granted to the user
  directly (a row of \<^verbatim>\<open>user_permissions\<close> linking the user to a permission with that
  codename) or through a group (a row of \<^verbatim>\<open>user_groups\<close> for the user and a row of
  \<^verbatim>\<open>group_permissions\<close> linking that group to such a permission).
\<close>

theorem hasModelPermission_iff_granted:
  assumes "auth_schema db"
    and "u \<in> set (table_rows db ''users'')"
    and "column_value u ''id'' = JNum userId"
    and "\<not> truthy (column_value u ''isSuperuser'')"
  shows "\<exists>db'. hasModelPermission db userId action modelName =
           Inr (granted_directly db userId (action @ ''_'' @ toLowerCase modelName)
                \<or> granted_via_group db userId (action @ ''_'' @ toLowerCase modelName), db')"
  unfolding hasModelPermission_def Let_def
  using assms by (rule hasPermission_spec)

lemma auth_schema_auth_db: "auth_schema auth_db"
  by (simp add: auth_schema_def has_table_def getTableName_auth declared_fields_auth
        auth_db_def users_columns_def user_row_def wf_table_def rowid_def)

lemma toLowerCase_Post: "toLowerCase ''Post'' = ''post''"
  by (simp add: toLowerCase_def lower_char_def)

lemma auth_db_rows:
  "table_rows auth_db ''users'' = [user_row 1 ''ann'' 0, user_row 2 ''bob'' 0, user_row 3 ''root'' 1]"
  by (simp add: table_rows_def auth_db_def)

lemma granted_auth_db:
  "granted_directly auth_db 1 ''add_post''"
  "\<not> granted_directly auth_db 1 ''change_post''"
  "\<not> granted_via_group auth_db 1 ''add_post''"
  "\<not> granted_via_group auth_db 1 ''change_post''"
  "\<not> granted_directly auth_db 1 ''delete_post''"
  "\<not> granted_via_group auth_db 1 ''delete_post''"
  "\<not> granted_directly auth_db 2 ''change_post''"
  "granted_via_group auth_db 2 ''change_post''"
  by (simp_all add: granted_directly_def granted_via_group_def links_codename_def table_rows_def
        auth_db_def column_value_def)

theorem hasModelPermission_iff_granted_witness:
  "returned (hasModelPermission auth_db 1 ''add'' ''Post'') = Some True
   \<and> returned (hasModelPermission auth_db 1 ''change'' ''Post'') = Some False
   \<and> returned (hasModelPermission auth_db 1 ''delete'' ''Post'') = Some False
   \<and> returned (hasModelPermission auth_db 2 ''change'' ''Post'') = Some True"
proof -
  have ann: "user_row 1 ''ann'' 0 \<in> set (table_rows auth_db ''users'')"
    "column_value (user_row 1 ''ann'' 0) ''id'' = JNum 1"
    "\<not> truthy (column_value (user_row 1 ''ann'' 0) ''isSuperuser'')"
    by (simp_all add: auth_db_rows) (simp_all add: user_row_def column_value_def)
  have bob: "user_row 2 ''bob'' 0 \<in> set (table_rows auth_db ''users'')"
    "column_value (user_row 2 ''bob'' 0) ''id'' = JNum 2"
    "\<not> truthy (column_value (user_row 2 ''bob'' 0) ''isSuperuser'')"
    by (simp_all add: auth_db_rows) (simp_all add: user_row_def column_value_def)
  note a = hasModelPermission_iff_granted [OF auth_schema_auth_db ann, where modelName = "''Post''"]
  note b = hasModelPermission_iff_granted [OF auth_schema_auth_db bob, where modelName = "''Post''"]
  from a [of "''add''"] have 1: "returned (hasModelPermission auth_db 1 ''add'' ''Post'') = Some True"
    by (auto simp: toLowerCase_Post granted_auth_db)
  from a [of "''change''"]
  have 2: "returned (hasModelPermission auth_db 1 ''change'' ''Post'') = Some False"
    by (auto simp: toLowerCase_Post granted_auth_db)
  from a [of "''delete''"]
  have 3: "returned (hasModelPermission auth_db 1 ''delete'' ''Post'') = Some False"
    by (auto simp: toLowerCase_Post granted_auth_db)
  from b [of "''change''"]
  have 4: "returned (hasModelPermission auth_db 2 ''change'' ''Post'') = Some True"
    by (auto simp: toLowerCase_Post granted_auth_db)
  from 1 2 3 4 show ?thesis by simp
qed

subsection \<open>What save writes for a true flag\<close>

lemma map_of_rev_distinct: "distinct (map fst xs) \<Longrightarrow> map_of (rev xs) = map_of xs"
proof (induction xs)
  case Nil
  then show ?case by simp
next
  case (Cons x xs)
  obtain k v where x: "x = (k, v)" by (cases x)
  from Cons.prems x have k: "k \<notin> fst ` set xs" and d: "distinct (map fst xs)" by auto
  from k have "map_of xs k = None" by (simp add: map_of_eq_None_iff)
  with Cons.IH [OF d] x show ?case
    by (auto simp: fun_eq_iff map_add_def split: option.splits)
qed

lemma zip_bind: "zip (map fst xs) (map g (map snd xs)) = map (\<lambda>(k, v). (k, g v)) xs"
  by (induction xs) auto

lemma map_of_bound:
  "distinct (map fst xs) \<Longrightarrow> (k, v) \<in> set xs \<Longrightarrow>
     map_of (map (\<lambda>(k, v). (k, g v)) xs) k = Some (g v)"
  by (induction xs) (auto simp: image_iff)

lemma distinct_bound: "distinct (map fst xs) \<Longrightarrow> distinct (map fst (map (\<lambda>(k, v). (k, g v)) xs))"
  by (simp add: comp_def case_prod_unfold)

lemma spec_resolve_true: "spec_resolve f (JBool True) clock = Some (JNum 1, clock)"
  by (simp add: spec_resolve_def spec_step1_def spec_step2_def spec_step3_def)

lemma fst_spec_persisted_Cons:
  "fst (spec_persisted ((k, g) # fs) this clock) =
     (if k = ''id'' then fst (spec_persisted fs this clock)
      else case spec_resolve g (get_prop this k) clock of
             None \<Rightarrow> fst (spec_persisted fs this clock)
           | Some (v, clock') \<Rightarrow> (k, v) # fst (spec_persisted fs this clock'))"
  by (simp split: option.splits prod.splits)

lemma spec_persisted_true:
  "(fname, f) \<in> set fs \<Longrightarrow> fname \<noteq> ''id'' \<Longrightarrow> get_prop this fname = JBool True \<Longrightarrow>
     (fname, JNum 1) \<in> set (fst (spec_persisted fs this clock))"
proof (induction fs arbitrary: clock)
  case Nil
  then show ?case by simp
next
  case (Cons p fs)
  obtain k g where p: "p = (k, g)" by (cases p)
  show ?case
  proof (cases "k = fname")
    case True
    with Cons.prems p show ?thesis
      unfolding p fst_spec_persisted_Cons by (simp add: spec_resolve_true)
  next
    case False
    with Cons.prems p have "(fname, f) \<in> set fs" by auto
    from Cons.IH [OF this Cons.prems(2,3)]
    have ih: "(fname, JNum 1) \<in> set (fst (spec_persisted fs this c))" for c .
    show ?thesis
      unfolding p fst_spec_persisted_Cons
      by (cases "spec_resolve g (get_prop this k) clock") (auto simp: ih)
  qed
qed

lemma spec_persisted_keys:
  "k \<in> set (map fst (fst (spec_persisted fs this clock))) \<Longrightarrow>
     k \<in> set (map fst fs) \<and> k \<noteq> ''id''"
proof (induction fs arbitrary: clock)
  case Nil
  then show ?case by simp
next
  case (Cons p fs)
  obtain k' g where p: "p = (k', g)" by (cases p)
  show ?case
  proof (cases "k' = ''id''")
    case True
    with Cons.prems p have "k \<in> set (map fst (fst (spec_persisted fs this clock)))"
      by (simp add: fst_spec_persisted_Cons del: spec_persisted.simps)
    from Cons.IH [OF this] show ?thesis by simp
  next
    case False
    show ?thesis
    proof (cases "spec_resolve g (get_prop this k') clock")
      case None
      with False Cons.prems p have "k \<in> set (map fst (fst (spec_persisted fs this clock)))"
        by (simp add: fst_spec_persisted_Cons del: spec_persisted.simps)
      from Cons.IH [OF this] show ?thesis by simp
    next
      case (Some r)
      obtain v c where r: "r = (v, c)" by (cases r)
      from False Cons.prems p Some r
      have "k \<in> set (map fst ((k', v) # fst (spec_persisted fs this c)))"
        by (simp add: fst_spec_persisted_Cons del: spec_persisted.simps)
      then have "k = k' \<or> k \<in> set (map fst (fst (spec_persisted fs this c)))" by simp
      then show ?thesis
      proof
        assume "k = k'"
        with False p show ?thesis by simp
      next
        assume "k \<in> set (map fst (fst (spec_persisted fs this c)))"
        from Cons.IH [OF this] show ?thesis by simp
      qed
    qed
  qed
qed

lemma spec_persisted_distinct:
  "distinct (map fst fs) \<Longrightarrow> distinct (map fst (fst (spec_persisted fs this clock)))"
proof (induction fs arbitrary: clock)
  case Nil
  then show ?case by simp
next
  case (Cons p fs)
  obtain k g where p: "p = (k, g)" by (cases p)
  from Cons.prems p have k: "k \<notin> set (map fst fs)" and d: "distinct (map fst fs)" by auto
  from k spec_persisted_keys [of k fs this] have
    nk: "k \<notin> set (map fst (fst (spec_persisted fs this c)))" for c by blast
  note ih = Cons.IH [OF d]
  show ?case
    unfolding p fst_spec_persisted_Cons
    by (cases "spec_resolve g (get_prop this k) clock") (auto simp: ih nk simp del: set_map)
qed


lemma insert_result:
  assumes "run_statement db sql (InsertInto tn cols) ps = Inr (out, db')"
  obtains t where "map_of (tables db) tn = Some t"
    and "list_all (\<lambda>c. c \<in> set (columns t)) cols"
    and "list_all bindable ps"
    and "out = Changes 1 (int (Suc (seq t)))"
    and "map_of (tables db') tn =
           Some (t\<lparr>rows := rows t @ [(''id'', JNum (int (Suc (seq t)))) # zip cols (map bind ps)],
                   seq := Suc (seq t)\<rparr>)"
  using assms
  by (auto simp: run_statement_def Let_def update_conv' split: if_splits option.splits)

lemma update_result:
  assumes "run_statement db sql (UpdateSet tn cols) ps = Inr (out, db')"
  obtains t where "map_of (tables db) tn = Some t"
    and "list_all (\<lambda>c. c \<in> set (columns t)) cols"
    and "list_all bindable ps"
    and "map_of (tables db') tn =
           Some (t\<lparr>rows := map (\<lambda>r. if sql_eq (column_value r ''id'') (last ps)
                                        then assign r (zip cols (map bind (butlast ps))) else r)
                                (rows t)\<rparr>)"
  using assms
  by (auto simp: run_statement_def Let_def update_conv' split: if_splits option.splits)

lemma column_value_assign:
  "column_value (assign r b) k =
     (case map_of (rev b) k of Some v \<Rightarrow> v | None \<Rightarrow> column_value r k)"
  by (simp add: column_value_def map_of_assign_rev split: option.splits)

lemma written_value:
  assumes "distinct (map fst data)" and "(fname, JNum 1) \<in> set data"
  shows "map_of (zip (map fst data) (map bind (map snd data))) fname = Some (JNum 1)"
    and "map_of (rev (zip (map fst data) (map bind (map snd data)))) fname = Some (JNum 1)"
proof -
  show 1: "map_of (zip (map fst data) (map bind (map snd data))) fname = Some (JNum 1)"
    unfolding zip_bind using map_of_bound [OF assms, of bind] by simp
  have "distinct (map fst (zip (map fst data) (map bind (map snd data))))"
    unfolding zip_bind using assms(1) by (rule distinct_bound)
  from map_of_rev_distinct [OF this] 1
  show "map_of (rev (zip (map fst data) (map bind (map snd data)))) fname = Some (JNum 1)"
    by simp
qed

subsection \<open>The boolean round trip\<close>

text \<open>
  Claim C7. Let a field other than \<^verbatim>\<open>id\<close> be declared by the model of an instance whose
  attribute for it is \<^verbatim>\<open>true\<close>, and let \<^verbatim>\<open>save()\<close> return on a well-formed
  table. Then reading back the rows with the instance's id through a QuerySet returns, and every
  instance hydrated from them carries the number 1 in that attribute, which is truthy: save
  stores 1 and hydration hands the stored value back unchanged. After an insert exactly one
  instance is read back.
\<close>

theorem boolean_round_trip:
  assumes t: "map_of (tables db) (getTableName (cls this)) = Some t" and wf: "wf_table t"
    and fld: "(fname, f) \<in> set (getFields (cls this))" and nid: "fname \<noteq> ''id''"
    and val: "get_prop (attrs this) fname = JBool True"
    and save: "Model_save db clock this = Inr (this', db', clock')"
  shows "\<exists>insts db''.
           QuerySet_all db' (objects_filter (cls this) [(''id'', get_prop (attrs this') ''id'')])
             = Inr (insts, db'')
           \<and> (\<forall>inst \<in> set insts. get_prop (attrs inst) fname = JNum 1
                                   \<and> truthy (get_prop (attrs inst) fname))
           \<and> (\<not> truthy (get_prop (attrs this) ''id'') \<longrightarrow> length insts = 1)"
proof -
  let ?tn = "getTableName (cls this)"
  let ?m = "cls this"
  obtain data c where sp: "spec_persisted (getFields ?m) (attrs this) clock = (data, c)"
    by (cases "spec_persisted (getFields ?m) (attrs this) clock")
  then have data: "data = fst (spec_persisted (getFields ?m) (attrs this) clock)" by simp
  have mem: "(fname, JNum 1) \<in> set data"
    unfolding data by (rule spec_persisted_true [OF fld nid val])
  have dist: "distinct (map fst data)"
    unfolding data by (rule spec_persisted_distinct [OF getFields_distinct])
  from mem have fin: "fname \<in> set (map fst data)" by force
  note wv = written_value [OF dist mem]
  show ?thesis
  proof (cases "truthy (get_prop (attrs this) ''id'')")
    case False
    with save sp obtain result where
      r: "run_statement db (insert_sql ?tn data) (InsertInto ?tn (map fst data)) (map snd data)
            = Inr (result, db')"
      and th: "this' = this\<lparr>attrs := AList.update ''id'' (JNum (lastInsertRowid result)) (attrs this)\<rparr>"
      by (auto simp: Model_save_def Let_def collect_data_getFields split: sum.splits)
    let ?new = "(''id'', JNum (int (Suc (seq t)))) # zip (map fst data) (map bind (map snd data))"
    let ?t' = "t\<lparr>rows := rows t @ [?new], seq := Suc (seq t)\<rparr>"
    from r obtain t0 where t0: "map_of (tables db) ?tn = Some t0"
      and cols0: "list_all (\<lambda>c. c \<in> set (columns t0)) (map fst data)"
      and out0: "result = Changes 1 (int (Suc (seq t0)))"
      and t0': "map_of (tables db') ?tn =
           Some (t0\<lparr>rows := rows t0 @ [(''id'', JNum (int (Suc (seq t0))))
                            # zip (map fst data) (map bind (map snd data))],
                   seq := Suc (seq t0)\<rparr>)"
      by (rule insert_result)
    from t0 t have "t0 = t" by simp
    with cols0 out0 t0' have cols: "list_all (\<lambda>c. c \<in> set (columns t)) (map fst data)"
      and out: "result = Changes 1 (int (Suc (seq t)))"
      and t': "map_of (tables db') ?tn = Some ?t'"
      by simp_all
    let ?idv = "JNum (int (Suc (seq t)))"
    from th out have idv: "get_prop (attrs this') ''id'' = ?idv"
      by (simp add: get_prop_update_same)
    have rd: "readable ?t' ''id''" "readable ?t' fname"
      using cols fin by (auto simp: readable_def list_all_iff)
    let ?P = "\<lambda>r. sql_eq (column_value r ''id'') ?idv"
    have old: "\<not> ?P r" if "r \<in> set (rows t)" for r
    proof -
      from wf that obtain n where "column_value r ''id'' = JNum n" "n \<le> int (seq t)"
        by (rule wf_table_rowid)
      then show ?thesis by simp
    qed
    have new: "?P ?new" by (simp add: column_value_def)
    have flt: "filter ?P (rows ?t') = [?new]"
      using old new by (simp add: filter_empty_conv)
    have bi: "bindable ?idv" by simp
    from select_tables [OF t' rd(1) bi] obtain db'' where
      q0: "QuerySet_all db' (objects_filter ?m [(''id'', ?idv)])
            = Inr (map (hydrate ?m \<circ> project ?t') (filter ?P (rows ?t')), db'')"
      by blast
    have q: "QuerySet_all db' (objects_filter ?m [(''id'', ?idv)])
            = Inr ([hydrate ?m (project ?t' ?new)], db'')"
      unfolding q0 flt by simp
    have v: "get_prop (attrs (hydrate ?m (project ?t' ?new))) fname = JNum 1"
      using rd(2) nid wv(1) by (simp add: get_prop_hydrate column_value_def)
    from q v idv show ?thesis by simp
  next
    case True
    let ?idv = "get_prop (attrs this) ''id''"
    from True save sp obtain result where
      r: "run_statement db (update_sql ?tn data) (UpdateSet ?tn (map fst data))
            (map snd data @ [?idv]) = Inr (result, db')"
      and th: "this' = this"
      by (auto simp: Model_save_def Let_def collect_data_getFields split: sum.splits)
    let ?upd = "\<lambda>r. if sql_eq (column_value r ''id'') ?idv
                    then assign r (zip (map fst data) (map bind (map snd data))) else r"
    let ?t' = "t\<lparr>rows := map ?upd (rows t)\<rparr>"
    from r obtain t0 where t0: "map_of (tables db) ?tn = Some t0"
      and cols0: "list_all (\<lambda>c. c \<in> set (columns t0)) (map fst data)"
      and b: "list_all bindable (map snd data @ [?idv])"
      and t0': "map_of (tables db') ?tn =
           Some (t0\<lparr>rows := map (\<lambda>r. if sql_eq (column_value r ''id'') (last (map snd data @ [?idv]))
                                        then assign r (zip (map fst data)
                                               (map bind (butlast (map snd data @ [?idv])))) else r)
                                (rows t0)\<rparr>)"
      by (rule update_result)
    from t0 t have "t0 = t" by simp
    with cols0 t0' have cols: "list_all (\<lambda>c. c \<in> set (columns t)) (map fst data)"
      and t': "map_of (tables db') ?tn = Some ?t'"
      by simp_all
    have rd: "readable ?t' ''id''" "readable ?t' fname"
      using cols fin by (auto simp: readable_def list_all_iff)
    from b have bi: "bindable ?idv" by simp
    let ?P = "\<lambda>r. sql_eq (column_value r ''id'') ?idv"
    from select_tables [OF t' rd(1) bi] obtain db'' where
      q: "QuerySet_all db' (objects_filter ?m [(''id'', ?idv)])
            = Inr (map (hydrate ?m \<circ> project ?t') (filter ?P (rows ?t')), db'')"
      by blast
    have each: "column_value r' fname = JNum 1" if "r' \<in> set (filter ?P (rows ?t'))" for r'
    proof -
      from that obtain r0 where r0: "r0 \<in> set (rows t)" "r' = ?upd r0" and P: "?P r'"
        by auto
      show ?thesis
      proof (cases "?P r0")
        case True
        with r0 have "r' = assign r0 (zip (map fst data) (map bind (map snd data)))" by simp
        then show ?thesis using wv(2) by (simp add: column_value_assign)
      next
        case False
        with r0 have "r' = r0" by simp
        with P False show ?thesis by simp
      qed
    qed
    have "\<forall>inst \<in> set (map (hydrate ?m \<circ> project ?t') (filter ?P (rows ?t'))).
            get_prop (attrs inst) fname = JNum 1 \<and> truthy (get_prop (attrs inst) fname)"
      using each rd(2) by (auto simp: get_prop_hydrate simp del: set_filter)
    with q th True show ?thesis by simp
  qed
qed


theorem boolean_round_trip_witness:
  "\<exists>this' db' c' insts db''.
     Model_save empty_db 0 unsaved_post = Inr (this', db', c')
     \<and> QuerySet_all db' (objects_filter Post [(''id'', get_prop (attrs this') ''id'')])
         = Inr (insts, db'')
     \<and> map (\<lambda>inst. get_prop (attrs inst) ''isPublished'') insts = [JNum 1]
     \<and> map (\<lambda>inst. truthy (get_prop (attrs inst) ''isPublished'')) insts = [True]"
proof -
  let ?f = "set_fieldName (BooleanField_new
              (FieldOptions None None None (JBool False) None None None)) ''isPublished''"
  have t: "map_of (tables empty_db) (getTableName (cls unsaved_post)) = Some (posts_table [] 0)"
    by (simp add: unsaved_post_attrs getTableName_Post empty_db_def)
  have wf: "wf_table (posts_table [] 0)"
    by (simp add: wf_table_def posts_table_def)
  have fld: "(''isPublished'', ?f) \<in> set (getFields (cls unsaved_post))"
    by (simp add: unsaved_post_attrs getFields_Post)
  have nid: "''isPublished'' \<noteq> ''id''" by simp
  have val: "get_prop (attrs unsaved_post) ''isPublished'' = JBool True"
    and noid: "\<not> truthy (get_prop (attrs unsaved_post) ''id'')"
    by (simp_all add: unsaved_post_attrs get_prop_def)
  obtain this' db' c' where s: "Model_save empty_db 0 unsaved_post = Inr (this', db', c')"
    using save_unsaved_post by blast
  from boolean_round_trip [OF t wf fld nid val s] noid obtain insts db'' where
    q: "QuerySet_all db' (objects_filter (cls unsaved_post) [(''id'', get_prop (attrs this') ''id'')])
          = Inr (insts, db'')"
    and a: "\<forall>inst \<in> set insts. get_prop (attrs inst) ''isPublished'' = JNum 1
                                 \<and> truthy (get_prop (attrs inst) ''isPublished'')"
    and l: "length insts = 1"
    by blast
  from l obtain inst where i: "insts = [inst]"
    by (cases insts) auto
  from a i have "map (\<lambda>inst. get_prop (attrs inst) ''isPublished'') insts = [JNum 1]"
    and "map (\<lambda>inst. truthy (get_prop (attrs inst) ''isPublished'')) insts = [True]"
    by simp_all
  with s q show ?thesis
    by (auto simp: unsaved_post_attrs)
qed

subsection \<open>The life of an instance\<close>












end
